theory Spec2Isabelle
  imports Main
begin

section \<open>The database bootstrap handler (src/bootstrap_after_pr.ts)\<close>

text \<open>
  The handler reads three secrets, derives the target database and schema, and then talks
  to PostgreSQL over up to four connections, one after the other. The collaborators (the
  secrets manager, \<^verbatim>\<open>JSON.parse\<close>, the \<^verbatim>\<open>pg\<close> client) are parameters of the
  model, collected in a record \<open>world\<close>; what the handler does with them is a computation
  that returns either an error (a thrown exception or rejected promise) or a value, together
  with the list of the calls it made, in order, each with the outcome the handler observed.
\<close>

subsection \<open>JavaScript values\<close>

text \<open>
  A parsed secret and a result row are JSON values. The model covers the primitives, arrays
  of primitives and objects whose own properties are primitives; an object is the list of
  its own properties, and the first binding of a name is the property's value. A number is
  kept as the text that \<^verbatim>\<open>String(n)\<close> gives for it, which is all the handler can observe
  of it (\<^verbatim>\<open>0\<close>, \<^verbatim>\<open>-0\<close> and \<^verbatim>\<open>NaN\<close> are the falsy numbers, rendered \<^verbatim>\<open>0\<close> and
  \<^verbatim>\<open>NaN\<close>).
\<close>

datatype error = TypeError | SyntaxError | Rejected string

datatype prim = JUndefined | JNull | JBool bool | JNum string | JStr string

datatype json = JPrim prim | JArr "prim list" | JObj "(string \<times> prim) list"

text \<open>\<^verbatim>\<open>Boolean(v)\<close>, also the test of \<^verbatim>\<open>if (v)\<close> and \<^verbatim>\<open>!v\<close>.\<close>

fun truthy :: "prim \<Rightarrow> bool" where
  "truthy JUndefined = False"
| "truthy JNull = False"
| "truthy (JBool b) = b"
| "truthy (JNum s) = (s \<noteq> ''0'' \<and> s \<noteq> ''NaN'')"
| "truthy (JStr s) = (s \<noteq> [])"

fun truthy_json :: "json \<Rightarrow> bool" where
  "truthy_json (JPrim p) = truthy p"
| "truthy_json (JArr xs) = True"
| "truthy_json (JObj kvs) = True"

text \<open>The text a template literal \<^verbatim>\<open>`${v}`\<close> interpolates for a primitive.\<close>

fun to_string :: "prim \<Rightarrow> string" where
  "to_string JUndefined = ''undefined''"
| "to_string JNull = ''null''"
| "to_string (JBool b) = (if b then ''true'' else ''false'')"
| "to_string (JNum s) = s"
| "to_string (JStr s) = s"

text \<open>
  Property access \<^verbatim>\<open>v.name\<close>, for the names the handler reads (\<^verbatim>\<open>username\<close>,
  \<^verbatim>\<open>password\<close>, \<^verbatim>\<open>exists\<close>), none of which a prototype defines: it throws a
  TypeError on \<^verbatim>\<open>undefined\<close> and \<^verbatim>\<open>null\<close>, and gives \<^verbatim>\<open>undefined\<close> where
  the value has no such own property.
\<close>

fun get_prop :: "json \<Rightarrow> string \<Rightarrow> error + prim" where
  "get_prop (JPrim JUndefined) name = Inl TypeError"
| "get_prop (JPrim JNull) name = Inl TypeError"
| "get_prop (JPrim p) name = Inr JUndefined"
| "get_prop (JArr xs) name = Inr JUndefined"
| "get_prop (JObj kvs) name =
     Inr (case map_of kvs name of None \<Rightarrow> JUndefined | Some v \<Rightarrow> v)"

text \<open>Optional chaining \<^verbatim>\<open>v?.name\<close>: \<^verbatim>\<open>undefined\<close> where \<^verbatim>\<open>v.name\<close> would throw.\<close>

definition get_prop_opt :: "json \<Rightarrow> string \<Rightarrow> error + prim" where
  "get_prop_opt v name =
     (if v = JPrim JUndefined \<or> v = JPrim JNull then Inr JUndefined else get_prop v name)"

text \<open>
  \<^verbatim>\<open>s.replace(pat, rep)\<close> with a string pattern: the first occurrence of \<open>pat\<close>, scanning
  from the left, is replaced; a string without an occurrence is returned as it is.
\<close>

fun replace_first :: "string \<Rightarrow> string \<Rightarrow> string \<Rightarrow> string" where
  "replace_first pat rep [] = (if pat = [] then rep else [])"
| "replace_first pat rep (c # cs) =
     (if take (length pat) (c # cs) = pat then rep @ drop (length pat) (c # cs)
      else c # replace_first pat rep cs)"

text \<open>
  \<^verbatim>\<open>v.replace(pat, rep)\<close> on a property value: only a string has the method; on every
  other primitive the call throws a TypeError.
\<close>

fun js_replace :: "prim \<Rightarrow> string \<Rightarrow> string \<Rightarrow> error + string" where
  "js_replace (JStr s) pat rep = Inr (replace_first pat rep s)"
| "js_replace v pat rep = Inl TypeError"

text \<open>\<^verbatim>\<open>s.includes(pat)\<close>: \<open>pat\<close> occurs in \<open>s\<close> as a contiguous substring.\<close>

fun str_includes :: "string \<Rightarrow> string \<Rightarrow> bool" where
  "str_includes [] pat = (pat = [])"
| "str_includes (c # cs) pat = (take (length pat) (c # cs) = pat \<or> str_includes cs pat)"

text \<open>\<^verbatim>\<open>xs.join(sep)\<close> on an array of primitives: \<^verbatim>\<open>undefined\<close> and \<^verbatim>\<open>null\<close> give the empty text.\<close>

fun join :: "string \<Rightarrow> prim list \<Rightarrow> string" where
  "join sep [] = []"
| "join sep [x] = (if x = JUndefined \<or> x = JNull then [] else to_string x)"
| "join sep (x # y # ys) =
     (if x = JUndefined \<or> x = JNull then [] else to_string x) @ sep @ join sep (y # ys)"

subsection \<open>Configuration, connections and the outside world\<close>

text \<open>The environment as \<^verbatim>\<open>cleanEnv\<close> returns it; an optional variable may be undefined.\<close>

record env =
  MASTER_USER_SECRET :: string
  APP_USER_SECRET :: string
  CDC_USER_SECRET :: "string option"
  APP_DATABASE_NAME :: "string option"
  APP_SCHEMA_NAME :: "string option"
  RDS_HOST :: string

text \<open>The four \<^verbatim>\<open>Client\<close> objects of the handler, with the options they are built from.\<close>

datatype conn = MainConn | ServiceConn | AdminConn | CdcDbConn

record client =
  conn :: conn
  cfg_database :: "string option"
  cfg_user :: prim
  cfg_password :: prim
  cfg_host :: string
  cfg_port :: nat

text \<open>
  One entry of the trace per call to a collaborator that has an effect, with what came
  back: \<open>None\<close> for a call that resolved, \<open>Some e\<close> for one that rejected with \<open>e\<close>; a
  query resolves with the rows of its result.
\<close>

datatype event =
    Connect client "error option"
  | Log string
  | Submit client string "error + json list"
  | End client "error option"

text \<open>
  The collaborators. \<open>secret_send\<close> is \<^verbatim>\<open>secretClient.send(new GetSecretValueCommand(..))\<close>
  followed by \<^verbatim>\<open>.SecretString\<close>, which may be undefined. \<open>conn_database\<close> is the
  \<^verbatim>\<open>database\<close> property of a client, as text. The three operations of a client may
  depend on everything that happened before them.
\<close>

record world =
  process_env :: env
  secret_send :: "string \<Rightarrow> error + string option"
  JSON_parse :: "string \<Rightarrow> error + json"
  conn_database :: "client \<Rightarrow> string"
  pg_connect :: "event list \<Rightarrow> client \<Rightarrow> error option"
  pg_query :: "event list \<Rightarrow> client \<Rightarrow> string \<Rightarrow> error + json list"
  pg_end :: "event list \<Rightarrow> client \<Rightarrow> error option"

subsection \<open>Computations with effects\<close>

text \<open>
  A computation is given the history of the run so far and returns its outcome and the
  events it added. \<open>try_finally\<close> is \<^verbatim>\<open>try { body } finally { fin }\<close>: \<open>fin\<close> runs
  however \<open>body\<close> ends, and an error of \<open>fin\<close> replaces the outcome of \<open>body\<close>.
\<close>

type_synonym 'a io = "event list \<Rightarrow> (error + 'a) \<times> event list"

definition return :: "'a \<Rightarrow> 'a io" where
  "return x h = (Inr x, [])"

definition lift :: "error + 'a \<Rightarrow> 'a io" where
  "lift r h = (r, [])"

definition bind :: "'a io \<Rightarrow> ('a \<Rightarrow> 'b io) \<Rightarrow> 'b io" where
  "bind m f h =
     (case m h of
        (Inl e, evs) \<Rightarrow> (Inl e, evs)
      | (Inr x, evs) \<Rightarrow> (case f x (h @ evs) of (r, evs') \<Rightarrow> (r, evs @ evs')))"

definition try_finally :: "'a io \<Rightarrow> unit io \<Rightarrow> 'a io" where
  "try_finally body fin h =
     (case body h of (r, evs) \<Rightarrow>
        (case fin (h @ evs) of
           (Inl e, evs') \<Rightarrow> (Inl e, evs @ evs')
         | (Inr u, evs') \<Rightarrow> (r, evs @ evs')))"

definition connect :: "world \<Rightarrow> client \<Rightarrow> unit io" where
  "connect w c h =
     (let r = pg_connect w h c
      in (case r of None \<Rightarrow> Inr () | Some e \<Rightarrow> Inl e, [Connect c r]))"

definition conn_end :: "world \<Rightarrow> client \<Rightarrow> unit io" where
  "conn_end w c h =
     (let r = pg_end w h c
      in (case r of None \<Rightarrow> Inr () | Some e \<Rightarrow> Inl e, [End c r]))"

text \<open>
  \<^verbatim>\<open>function query(connection, statement)\<close>: the line
  \<^verbatim>\<open>[${connection.database}] ${statement}\<close> goes to the console, then the statement is
  submitted.
\<close>

definition log_line :: "world \<Rightarrow> client \<Rightarrow> string \<Rightarrow> string" where
  "log_line w connection statement =
     ''['' @ conn_database w connection @ ''] '' @ statement"

definition query :: "world \<Rightarrow> client \<Rightarrow> string \<Rightarrow> (json list) io" where
  "query w connection statement h =
     (let l = Log (log_line w connection statement);
          r = pg_query w (h @ [l]) connection statement
      in (r, [l, Submit connection statement r]))"

text \<open>One \<^verbatim>\<open>await query(connection, s)\<close> after the other; the first rejection ends the sequence.\<close>

fun query_all :: "world \<Rightarrow> client \<Rightarrow> string list \<Rightarrow> unit io" where
  "query_all w connection [] = return ()"
| "query_all w connection (s # ss) =
     bind (query w connection s) (\<lambda>_. query_all w connection ss)"

text \<open>
  The pattern \<^verbatim>\<open>{ rows: [{ exists: x }] }\<close>: the first row's \<^verbatim>\<open>exists\<close>; with no
  row the pattern destructures \<^verbatim>\<open>undefined\<close> and throws.
\<close>

definition first_row_exists :: "json list \<Rightarrow> error + prim" where
  "first_row_exists rows =
     (case rows of [] \<Rightarrow> Inl TypeError | r # rest \<Rightarrow> get_prop r ''exists'')"

subsection \<open>The statements\<close>

definition quote :: string where
  "quote = [CHR 0x27]"

definition database_exists_statement :: "string \<Rightarrow> string" where
  "database_exists_statement database =
     ''SELECT exists(SELECT FROM pg_catalog.pg_database WHERE lower(datname) = lower(''
       @ quote @ database @ quote @ ''))''"

definition create_database_statement :: "string \<Rightarrow> string" where
  "create_database_statement database = ''CREATE DATABASE '' @ database"

definition role_exists_statement :: "prim \<Rightarrow> string" where
  "role_exists_statement username =
     ''SELECT exists(SELECT FROM pg_roles WHERE rolname='' @ quote @ to_string username
       @ quote @ '')''"

definition create_user_statement :: "prim \<Rightarrow> prim \<Rightarrow> string" where
  "create_user_statement username password =
     ''CREATE USER '' @ to_string username @ '' WITH ENCRYPTED PASSWORD '' @ quote
       @ to_string password @ quote"

text \<open>Lines 107 to 138, in the order of the source.\<close>

definition service_statements :: "string \<Rightarrow> prim \<Rightarrow> prim \<Rightarrow> string list" where
  "service_statements database schema username =
     [''CREATE EXTENSION IF NOT EXISTS pg_trgm SCHEMA '' @ to_string schema @ '' CASCADE'',
      ''CREATE EXTENSION IF NOT EXISTS intarray SCHEMA '' @ to_string schema @ '' CASCADE'',
      ''GRANT CONNECT ON DATABASE '' @ database @ '' TO '' @ to_string username,
      ''GRANT CREATE ON DATABASE '' @ database @ '' TO '' @ to_string username,
      ''CREATE SCHEMA IF NOT EXISTS '' @ to_string schema,
      ''REVOKE CREATE ON SCHEMA public FROM PUBLIC'',
      ''REVOKE ALL ON DATABASE '' @ database @ '' FROM PUBLIC'',
      ''GRANT USAGE, CREATE ON SCHEMA '' @ to_string schema @ '' TO '' @ to_string username,
      ''ALTER DEFAULT PRIVILEGES IN SCHEMA '' @ to_string schema
        @ '' GRANT ALL PRIVILEGES ON TABLES TO '' @ to_string username,
      ''GRANT ALL PRIVILEGES on DATABASE '' @ database @ '' to '' @ to_string username,
      ''ALTER DATABASE '' @ database @ '' OWNER TO '' @ to_string username]"

text \<open>Lines 185 to 202.\<close>

definition cdc_statements :: "string \<Rightarrow> prim \<Rightarrow> prim \<Rightarrow> string list" where
  "cdc_statements database schema cdcUsername =
     [''GRANT CONNECT ON DATABASE '' @ database @ '' TO '' @ to_string cdcUsername,
      ''GRANT SELECT ON ALL TABLES IN SCHEMA '' @ to_string schema @ '' TO ''
        @ to_string cdcUsername,
      ''GRANT rds_replication, rds_superuser TO '' @ to_string cdcUsername,
      ''CREATE PUBLICATION IF NOT EXISTS cdc_publication FOR ALL TABLES'']"

subsection \<open>The handler\<close>

text \<open>
  Lines 20 to 39 (and 44 to 50): a secret is fetched and parsed. With an undefined
  \<^verbatim>\<open>SecretString\<close>, \<^verbatim>\<open>JSON.parse\<close> is given \<^verbatim>\<open>undefined\<close>, which it reads as the
  text \<^verbatim>\<open>undefined\<close>.
\<close>

definition parse_secret :: "world \<Rightarrow> string \<Rightarrow> error + json" where
  "parse_secret w secretId =
     (case secret_send w secretId of
        Inl e \<Rightarrow> Inl e
      | Inr SecretString \<Rightarrow>
          JSON_parse w (case SecretString of None \<Rightarrow> ''undefined'' | Some s \<Rightarrow> s))"

text \<open>
  Lines 41 to 55: \<^verbatim>\<open>cdcUserSecret\<close> stays undefined unless \<^verbatim>\<open>CDC_USER_SECRET\<close> is a
  non-empty text and the secret has a non-empty \<^verbatim>\<open>SecretString\<close>, which is then parsed.
\<close>

definition load_cdc_secret :: "world \<Rightarrow> error + json" where
  "load_cdc_secret w =
     (case CDC_USER_SECRET (process_env w) of
        None \<Rightarrow> Inr (JPrim JUndefined)
      | Some secretId \<Rightarrow>
          if secretId = [] then Inr (JPrim JUndefined)
          else (case secret_send w secretId of
                  Inl e \<Rightarrow> Inl e
                | Inr None \<Rightarrow> Inr (JPrim JUndefined)
                | Inr (Some cdcRaw) \<Rightarrow>
                    if cdcRaw = [] then Inr (JPrim JUndefined) else JSON_parse w cdcRaw))"

text \<open>What lines 20 to 75 compute before the first connection is opened.\<close>

record settings =
  serviceSecret :: json
  cdcUserSecret :: json
  username :: prim
  password :: prim
  database :: string
  schema :: prim
  adminUser :: prim
  adminPassword :: prim

definition sbind :: "error + 'a \<Rightarrow> ('a \<Rightarrow> error + 'b) \<Rightarrow> error + 'b" where
  "sbind r f = (case r of Inl e \<Rightarrow> Inl e | Inr x \<Rightarrow> f x)"

definition load_settings :: "world \<Rightarrow> error + settings" where
  "load_settings w =
     sbind (parse_secret w (MASTER_USER_SECRET (process_env w))) (\<lambda>mainSecret.
     sbind (parse_secret w (APP_USER_SECRET (process_env w))) (\<lambda>service.
     sbind (load_cdc_secret w) (\<lambda>cdc.
     sbind (get_prop service ''username'') (\<lambda>usr.
     sbind (get_prop service ''password'') (\<lambda>pwd.
     sbind (case APP_DATABASE_NAME (process_env w) of
              Some d \<Rightarrow> Inr d
            | None \<Rightarrow> js_replace usr ''_user'' []) (\<lambda>db.
     sbind (get_prop mainSecret ''username'') (\<lambda>mu.
     sbind (get_prop mainSecret ''password'') (\<lambda>mp.
       Inr \<lparr>serviceSecret = service, cdcUserSecret = cdc, username = usr, password = pwd,
            database = db,
            schema = (case APP_SCHEMA_NAME (process_env w) of
                        Some s \<Rightarrow> JStr s
                      | None \<Rightarrow> usr),
            adminUser = mu, adminPassword = mp\<rparr>))))))))"

text \<open>The clients of lines 62 to 75, 149 to 154 and 175 to 181.\<close>

definition mainConn :: "world \<Rightarrow> settings \<Rightarrow> client" where
  "mainConn w s =
     \<lparr>conn = MainConn, cfg_database = None, cfg_user = adminUser s,
      cfg_password = adminPassword s, cfg_host = RDS_HOST (process_env w), cfg_port = 5432\<rparr>"

definition serviceConn :: "world \<Rightarrow> settings \<Rightarrow> client" where
  "serviceConn w s =
     \<lparr>conn = ServiceConn, cfg_database = Some (database s), cfg_user = adminUser s,
      cfg_password = adminPassword s, cfg_host = RDS_HOST (process_env w), cfg_port = 5432\<rparr>"

definition adminConn :: "world \<Rightarrow> settings \<Rightarrow> client" where
  "adminConn w s =
     \<lparr>conn = AdminConn, cfg_database = None, cfg_user = adminUser s,
      cfg_password = adminPassword s, cfg_host = RDS_HOST (process_env w), cfg_port = 5432\<rparr>"

definition cdcDbConn :: "world \<Rightarrow> settings \<Rightarrow> client" where
  "cdcDbConn w s =
     \<lparr>conn = CdcDbConn, cfg_database = Some (database s), cfg_user = adminUser s,
      cfg_password = adminPassword s, cfg_host = RDS_HOST (process_env w), cfg_port = 5432\<rparr>"

text \<open>
  An existence check followed by the creation it guards (lines 79 to 100 and 158 to 169):
  the creation statement is submitted when the \<^verbatim>\<open>exists\<close> of the first row is falsy.
\<close>

definition ensure :: "world \<Rightarrow> client \<Rightarrow> string \<Rightarrow> string \<Rightarrow> unit io" where
  "ensure w connection check creation =
     bind (query w connection check) (\<lambda>rows.
     bind (lift (first_row_exists rows)) (\<lambda>found.
       if \<not> truthy found then bind (query w connection creation) (\<lambda>_. return ())
       else return ()))"

text \<open>Lines 77 to 103.\<close>

definition main_phase :: "world \<Rightarrow> settings \<Rightarrow> unit io" where
  "main_phase w s =
     bind (connect w (mainConn w s)) (\<lambda>_.
       try_finally
         (bind (ensure w (mainConn w s) (database_exists_statement (database s))
                  (create_database_statement (database s))) (\<lambda>_.
            ensure w (mainConn w s) (role_exists_statement (username s))
              (create_user_statement (username s) (password s))))
         (conn_end w (mainConn w s)))"

text \<open>Lines 105 to 141.\<close>

definition service_phase :: "world \<Rightarrow> settings \<Rightarrow> unit io" where
  "service_phase w s =
     bind (connect w (serviceConn w s)) (\<lambda>_.
       try_finally
         (query_all w (serviceConn w s)
            (service_statements (database s) (schema s) (username s)))
         (conn_end w (serviceConn w s)))"

text \<open>
  Lines 145 to 205, with \<^verbatim>\<open>cdcUsername\<close> and \<^verbatim>\<open>cdcPassword\<close> read from the parsed
  secret, which is truthy here.
\<close>

definition cdc_phase :: "world \<Rightarrow> settings \<Rightarrow> unit io" where
  "cdc_phase w s =
     bind (lift (get_prop (cdcUserSecret s) ''username'')) (\<lambda>cdcUsername.
     bind (lift (get_prop (cdcUserSecret s) ''password'')) (\<lambda>cdcPassword.
     bind (connect w (adminConn w s)) (\<lambda>_.
     bind (try_finally
             (ensure w (adminConn w s) (role_exists_statement cdcUsername)
                (create_user_statement cdcUsername cdcPassword))
             (conn_end w (adminConn w s))) (\<lambda>_.
     bind (connect w (cdcDbConn w s)) (\<lambda>_.
       try_finally
         (query_all w (cdcDbConn w s) (cdc_statements (database s) (schema s) cdcUsername))
         (conn_end w (cdcDbConn w s)))))))"

text \<open>
  Lines 207 to 216: the message of a run with the CDC phase names the truthy ones of the
  two usernames; the message of a run without it is fixed.
\<close>

definition ready_message :: "settings \<Rightarrow> error + string" where
  "ready_message s =
     sbind (get_prop (serviceSecret s) ''username'') (\<lambda>serviceName.
     sbind (get_prop_opt (cdcUserSecret s) ''username'') (\<lambda>cdcName.
       Inr (''Database '' @ quote @ database s @ quote @ '' for username(s) '' @ quote
            @ join '' & '' (filter truthy [serviceName, cdcName]) @ quote
            @ '' is ready for use!'')))"

definition skipped_message :: string where
  "skipped_message = ''CDC_USER_SECRET not set; skipping CDC user/publication setup.''"

definition run :: "world \<Rightarrow> settings \<Rightarrow> string io" where
  "run w s =
     bind (main_phase w s) (\<lambda>_.
     bind (service_phase w s) (\<lambda>_.
       if truthy_json (cdcUserSecret s)
       then bind (cdc_phase w s) (\<lambda>_. lift (ready_message s))
       else return skipped_message))"

text \<open>
  The exported \<^verbatim>\<open>handler\<close>: its outcome (the \<^verbatim>\<open>message\<close> of the object it returns, or
  the error it throws) and the trace of the run.
\<close>

definition handler :: "world \<Rightarrow> (error + string) \<times> event list" where
  "handler w =
     (case load_settings w of
        Inl e \<Rightarrow> (Inl e, [])
      | Inr s \<Rightarrow> run w s [])"

subsection \<open>Observations on a trace\<close>

text \<open>The statements submitted on the connection named \<open>n\<close>, in order, with their outcomes.\<close>

type_synonym submission = "string \<times> (error + json list)"

fun submissions :: "conn \<Rightarrow> event list \<Rightarrow> submission list" where
  "submissions n [] = []"
| "submissions n (Submit c s q # evs) =
     (if conn c = n then (s, q) # submissions n evs else submissions n evs)"
| "submissions n (ev # evs) = submissions n evs"

definition submitted :: "conn \<Rightarrow> event list \<Rightarrow> string list" where
  "submitted n evs = map fst (submissions n evs)"

text \<open>The names of the connections on which \<^verbatim>\<open>connect\<close> was called, in order.\<close>

fun connections :: "event list \<Rightarrow> conn list" where
  "connections [] = []"
| "connections (Connect c r # evs) = conn c # connections evs"
| "connections (ev # evs) = connections evs"

text \<open>The lines written to the console, in order.\<close>

fun log_lines :: "event list \<Rightarrow> string list" where
  "log_lines [] = []"
| "log_lines (Log l # evs) = l # log_lines evs"
| "log_lines (ev # evs) = log_lines evs"

text \<open>An event of the CDC phase: a call on one of the two clients that only this phase builds.\<close>

fun on_cdc :: "event \<Rightarrow> bool" where
  "on_cdc (Connect c r) = (conn c = AdminConn \<or> conn c = CdcDbConn)"
| "on_cdc (Submit c s q) = (conn c = AdminConn \<or> conn c = CdcDbConn)"
| "on_cdc (End c r) = (conn c = AdminConn \<or> conn c = CdcDbConn)"
| "on_cdc (Log l) = False"

definition cdc_phase_ran :: "event list \<Rightarrow> bool" where
  "cdc_phase_ran evs = list_ex on_cdc evs"

text \<open>The console lines of the statements of the CDC phase.\<close>

fun cdc_lines :: "world \<Rightarrow> event list \<Rightarrow> string list" where
  "cdc_lines w [] = []"
| "cdc_lines w (Submit c s q # evs) =
     (if conn c = AdminConn \<or> conn c = CdcDbConn then log_line w c s # cdc_lines w evs
      else cdc_lines w evs)"
| "cdc_lines w (ev # evs) = cdc_lines w evs"

text \<open>
  An existence check answered that the entity is absent: the query resolved and the
  \<^verbatim>\<open>exists\<close> of its first row is falsy (\<^verbatim>\<open>false\<close> for a PostgreSQL server).
\<close>

definition absent :: "error + json list \<Rightarrow> bool" where
  "absent q =
     (case q of
        Inl e \<Rightarrow> False
      | Inr rows \<Rightarrow> (case first_row_exists rows of Inl e \<Rightarrow> False | Inr v \<Rightarrow> \<not> truthy v))"

text \<open>
  In a list of submissions, the statement \<open>creation\<close> comes directly after every \<open>check\<close>
  that was answered absent, and nowhere else.
\<close>

fun guarded_by :: "string \<Rightarrow> string \<Rightarrow> submission list \<Rightarrow> bool" where
  "guarded_by check creation [] = True"
| "guarded_by check creation [(s, q)] = (s \<noteq> creation \<and> \<not> (s = check \<and> absent q))"
| "guarded_by check creation ((s, q) # (s', q') # rest) =
     (s \<noteq> creation \<and>
      (if s = check \<and> absent q then s' = creation \<and> guarded_by check creation rest
       else guarded_by check creation ((s', q') # rest)))"

text \<open>The statements that create or drop a database or a role, told by their first words.\<close>

definition is_creation :: "string \<Rightarrow> bool" where
  "is_creation s = (take 16 s = ''CREATE DATABASE '' \<or> take 12 s = ''CREATE USER '')"

definition is_drop :: "string \<Rightarrow> bool" where
  "is_drop s = (take 5 s = ''DROP '')"

text \<open>
  The connection discipline, read along the trace with the client that is open: a client
  connects only while none is open, statements go to the open client, and only the open
  client is ended. A client whose \<^verbatim>\<open>end\<close> rejected still counts as open.
\<close>

fun sequential :: "client option \<Rightarrow> event list \<Rightarrow> bool" where
  "sequential cur [] = True"
| "sequential cur (Connect c r # evs) =
     (cur = None \<and> sequential (if r = None then Some c else None) evs)"
| "sequential cur (Submit c s q # evs) = (cur = Some c \<and> sequential cur evs)"
| "sequential cur (End c r # evs) =
     (cur = Some c \<and> sequential (if r = None then None else Some c) evs)"
| "sequential cur (Log l # evs) = sequential cur evs"

text \<open>The number of calls of \<^verbatim>\<open>end\<close> on a client.\<close>

fun count_ends :: "client \<Rightarrow> event list \<Rightarrow> nat" where
  "count_ends c [] = 0"
| "count_ends c (End c' r # evs) = (if c' = c then Suc (count_ends c evs) else count_ends c evs)"
| "count_ends c (ev # evs) = count_ends c evs"

text \<open>
  Every submission has its console line directly before it, and every console line is
  followed by the submission it announces.
\<close>

fun logged_before :: "world \<Rightarrow> event list \<Rightarrow> bool" where
  "logged_before w [] = True"
| "logged_before w (Log l # Submit c s q # evs) = (l = log_line w c s \<and> logged_before w evs)"
| "logged_before w (Log l # evs) = False"
| "logged_before w (Submit c s q # evs) = False"
| "logged_before w (ev # evs) = logged_before w evs"

text \<open>
  The error of the last call of the trace that rejected; a run that failed without a
  rejected call failed on a TypeError of its own.
\<close>

fun last_rejection :: "event list \<Rightarrow> error option" where
  "last_rejection [] = None"
| "last_rejection (ev # evs) =
     (case last_rejection evs of
        Some e \<Rightarrow> Some e
      | None \<Rightarrow>
          (case ev of
             Connect c (Some e) \<Rightarrow> Some e
           | Submit c s (Inl e) \<Rightarrow> Some e
           | End c (Some e) \<Rightarrow> Some e
           | _ \<Rightarrow> None))"

subsection \<open>The sessions of a run\<close>

text \<open>
  A run is a sequence of sessions, one per client: either the connection was refused, or it
  was opened, some statements were submitted, the body ended normally or with an error, and
  the client was ended. These definitions serve the proofs below.
\<close>

definition io_events :: "world \<Rightarrow> client \<Rightarrow> submission list \<Rightarrow> event list" where
  "io_events w c sq = concat (map (\<lambda>(s, q). [Log (log_line w c s), Submit c s q]) sq)"

fun succeeded :: "error + 'a \<Rightarrow> bool" where
  "succeeded (Inl e) = False"
| "succeeded (Inr x) = True"

definition all_ok :: "submission list \<Rightarrow> bool" where
  "all_ok sq = list_all (\<lambda>(s, q). succeeded q) sq"

definition body_coherent :: "submission list \<Rightarrow> error option \<Rightarrow> bool" where
  "body_coherent sq rb =
     ((all_ok sq \<and> (rb = None \<or> rb = Some TypeError)) \<or>
      (\<exists>sq' s e. sq = sq' @ [(s, Inl e)] \<and> all_ok sq' \<and> rb = Some e))"

datatype session =
    Refused client error
  | Closed client "submission list" "error option" "error option"

fun session_events :: "world \<Rightarrow> session \<Rightarrow> event list" where
  "session_events w (Refused c e) = [Connect c (Some e)]"
| "session_events w (Closed c sq rb re) = Connect c None # io_events w c sq @ [End c re]"

fun session_client :: "session \<Rightarrow> client" where
  "session_client (Refused c e) = c"
| "session_client (Closed c sq rb re) = c"

fun session_error :: "session \<Rightarrow> error option" where
  "session_error (Refused c e) = Some e"
| "session_error (Closed c sq rb re) = (case re of Some e \<Rightarrow> Some e | None \<Rightarrow> rb)"

fun session_coherent :: "session \<Rightarrow> bool" where
  "session_coherent (Refused c e) = True"
| "session_coherent (Closed c sq rb re) = body_coherent sq rb"

fun session_submissions :: "session \<Rightarrow> submission list" where
  "session_submissions (Refused c e) = []"
| "session_submissions (Closed c sq rb re) = sq"

definition session_lines :: "world \<Rightarrow> session \<Rightarrow> string list" where
  "session_lines w S =
     map (\<lambda>(s, q). log_line w (session_client S) s) (session_submissions S)"

definition reached ::
  "(submission list \<Rightarrow> error option \<Rightarrow> bool) \<Rightarrow> submission list \<Rightarrow> bool" where
  "reached B sq = (sq = [] \<or> (\<exists>rb. B sq rb))"

definition outcome :: "error option \<Rightarrow> error + unit" where
  "outcome e = (case e of None \<Rightarrow> Inr () | Some x \<Rightarrow> Inl x)"

definition session :: "world \<Rightarrow> client \<Rightarrow> unit io \<Rightarrow> unit io" where
  "session w c body = bind (connect w c) (\<lambda>_. try_finally body (conn_end w c))"

definition check_error :: "error + json list \<Rightarrow> error option" where
  "check_error q =
     (case q of
        Inl e \<Rightarrow> Some e
      | Inr rows \<Rightarrow> (case first_row_exists rows of Inl e \<Rightarrow> Some e | Inr v \<Rightarrow> None))"

definition query_error :: "error + json list \<Rightarrow> error option" where
  "query_error q = (case q of Inl e \<Rightarrow> Some e | Inr rows \<Rightarrow> None)"

definition ensure_run :: "string \<Rightarrow> string \<Rightarrow> submission list \<Rightarrow> error option \<Rightarrow> bool" where
  "ensure_run check creation sq rb =
     (\<exists>q q'. (absent q \<and> sq = [(check, q), (creation, q')] \<and> rb = query_error q') \<or>
             (\<not> absent q \<and> sq = [(check, q)] \<and> rb = check_error q))"

definition list_run :: "string list \<Rightarrow> submission list \<Rightarrow> error option \<Rightarrow> bool" where
  "list_run ss sq rb =
     ((all_ok sq \<and> map fst sq = ss \<and> rb = None) \<or>
      (\<exists>sq' s e. sq = sq' @ [(s, Inl e)] \<and> all_ok sq' \<and> rb = Some e \<and>
                 map fst sq = take (length sq) ss \<and> length sq \<le> length ss))"

definition main_run :: "settings \<Rightarrow> submission list \<Rightarrow> error option \<Rightarrow> bool" where
  "main_run s sq rb =
     (\<exists>sqa ea.
        ensure_run (database_exists_statement (database s))
          (create_database_statement (database s)) sqa ea \<and>
        ((ea \<noteq> None \<and> sq = sqa \<and> rb = ea) \<or>
         (ea = None \<and>
          (\<exists>sqb. ensure_run (role_exists_statement (username s))
                   (create_user_statement (username s) (password s)) sqb rb \<and>
                 sq = sqa @ sqb))))"

text \<open>
  The value of a property where reading it cannot throw, and with it the locals
  \<^verbatim>\<open>cdcUsername\<close> and \<^verbatim>\<open>cdcPassword\<close> of lines 145 and 146.
\<close>

definition own_prop :: "json \<Rightarrow> string \<Rightarrow> prim" where
  "own_prop v name = (case get_prop v name of Inl e \<Rightarrow> JUndefined | Inr x \<Rightarrow> x)"

definition cdcUsername :: "settings \<Rightarrow> prim" where
  "cdcUsername s = own_prop (cdcUserSecret s) ''username''"

definition cdcPassword :: "settings \<Rightarrow> prim" where
  "cdcPassword s = own_prop (cdcUserSecret s) ''password''"

definition session_of ::
  "client \<Rightarrow> (submission list \<Rightarrow> error option \<Rightarrow> bool) \<Rightarrow> session \<Rightarrow> bool" where
  "session_of c B S =
     (session_client S = c \<and>
      (case S of Refused c' e \<Rightarrow> True | Closed c' sq rb re \<Rightarrow> B sq rb))"

definition main_session :: "world \<Rightarrow> settings \<Rightarrow> session \<Rightarrow> bool" where
  "main_session w s = session_of (mainConn w s) (main_run s)"

definition service_session :: "world \<Rightarrow> settings \<Rightarrow> session \<Rightarrow> bool" where
  "service_session w s =
     session_of (serviceConn w s)
       (list_run (service_statements (database s) (schema s) (username s)))"

definition admin_session :: "world \<Rightarrow> settings \<Rightarrow> session \<Rightarrow> bool" where
  "admin_session w s =
     session_of (adminConn w s)
       (ensure_run (role_exists_statement (cdcUsername s))
          (create_user_statement (cdcUsername s) (cdcPassword s)))"

definition cdcDb_session :: "world \<Rightarrow> settings \<Rightarrow> session \<Rightarrow> bool" where
  "cdcDb_session w s =
     session_of (cdcDbConn w s)
       (list_run (cdc_statements (database s) (schema s) (cdcUsername s)))"

definition run_sessions ::
  "world \<Rightarrow> settings \<Rightarrow> error + string \<Rightarrow> session list \<Rightarrow> bool" where
  "run_sessions w s r ss =
     ((\<exists>S1 e. ss = [S1] \<and> main_session w s S1 \<and> session_error S1 = Some e \<and> r = Inl e) \<or>
      (\<exists>S1 S2 e. ss = [S1, S2] \<and> main_session w s S1 \<and> session_error S1 = None \<and>
         service_session w s S2 \<and> session_error S2 = Some e \<and> r = Inl e) \<or>
      (\<exists>S1 S2. ss = [S1, S2] \<and> main_session w s S1 \<and> session_error S1 = None \<and>
         service_session w s S2 \<and> session_error S2 = None \<and>
         \<not> truthy_json (cdcUserSecret s) \<and> r = Inr skipped_message) \<or>
      (\<exists>S1 S2 S3 e. ss = [S1, S2, S3] \<and> main_session w s S1 \<and> session_error S1 = None \<and>
         service_session w s S2 \<and> session_error S2 = None \<and>
         truthy_json (cdcUserSecret s) \<and>
         admin_session w s S3 \<and> session_error S3 = Some e \<and> r = Inl e) \<or>
      (\<exists>S1 S2 S3 S4. ss = [S1, S2, S3, S4] \<and> main_session w s S1 \<and> session_error S1 = None \<and>
         service_session w s S2 \<and> session_error S2 = None \<and>
         truthy_json (cdcUserSecret s) \<and>
         admin_session w s S3 \<and> session_error S3 = None \<and>
         cdcDb_session w s S4 \<and>
         r = (case session_error S4 of Some e \<Rightarrow> Inl e | None \<Rightarrow> ready_message s)))"

definition run_events :: "world \<Rightarrow> session list \<Rightarrow> event list" where
  "run_events w ss = concat (map (session_events w) ss)"

subsection \<open>Conditions and texts the properties speak of\<close>

text \<open>
  The CDC secret is usable: \<^verbatim>\<open>CDC_USER_SECRET\<close> is a non-empty text, the secret has a
  non-empty \<^verbatim>\<open>SecretString\<close>, and that text parses to a truthy value. This is when line
  144 finds \<^verbatim>\<open>cdcUserSecret\<close> truthy.
\<close>

definition cdc_secret_usable :: "world \<Rightarrow> bool" where
  "cdc_secret_usable w =
     (case CDC_USER_SECRET (process_env w) of
        None \<Rightarrow> False
      | Some secretId \<Rightarrow>
          secretId \<noteq> [] \<and>
          (case secret_send w secretId of
             Inl e \<Rightarrow> False
           | Inr None \<Rightarrow> False
           | Inr (Some cdcRaw) \<Rightarrow>
               cdcRaw \<noteq> [] \<and>
               (case JSON_parse w cdcRaw of Inl e \<Rightarrow> False | Inr v \<Rightarrow> truthy_json v)))"



text \<open>
  The gate of the CDC phase in the other variant of the handler (src/PT_bootstrap_v2.ts,
  lines 92 and 158), \<^verbatim>\<open>cdcUserSecret?.username && cdcUserSecret?.password\<close>: the parsed
  secret has a truthy \<^verbatim>\<open>username\<close> and a truthy \<^verbatim>\<open>password\<close>.
\<close>

definition cdc_gate_PT_bootstrap_v2 :: "json \<Rightarrow> bool" where
  "cdc_gate_PT_bootstrap_v2 v =
     (truthy (own_prop v ''username'') \<and> truthy (own_prop v ''password''))"

text \<open>
  The CDC secret holds credentials: it is configured, it resolves to a non-empty payload
  that parses, and the parsed value has a truthy \<^verbatim>\<open>username\<close> and a truthy
  \<^verbatim>\<open>password\<close>.
\<close>

definition cdc_credentials_given :: "world \<Rightarrow> bool" where
  "cdc_credentials_given w =
     (case load_cdc_secret w of Inl e \<Rightarrow> False | Inr v \<Rightarrow> cdc_gate_PT_bootstrap_v2 v)"




text \<open>The message of a run with the CDC phase, given the two usernames.\<close>

definition ready_text :: "string \<Rightarrow> prim \<Rightarrow> prim \<Rightarrow> string" where
  "ready_text db serviceName cdcName =
     ''Database '' @ quote @ db @ quote @ '' for username(s) '' @ quote
       @ join '' & '' (filter truthy [serviceName, cdcName]) @ quote @ '' is ready for use!''"

text \<open>
  The list of the service phase in the other variants of the handler (src/bootstrap.ts,
  lines 97 to 129, and src/PT_bootstrap_v2.ts, lines 120 to 152), which create the schema
  before the extensions.
\<close>

definition service_statements_bootstrap_ts :: "string \<Rightarrow> prim \<Rightarrow> prim \<Rightarrow> string list" where
  "service_statements_bootstrap_ts db sc usr =
     [''CREATE SCHEMA IF NOT EXISTS '' @ to_string sc,
      ''CREATE EXTENSION IF NOT EXISTS pg_trgm SCHEMA '' @ to_string sc @ '' CASCADE'',
      ''CREATE EXTENSION IF NOT EXISTS intarray SCHEMA '' @ to_string sc @ '' CASCADE'',
      ''GRANT CONNECT ON DATABASE '' @ db @ '' TO '' @ to_string usr,
      ''GRANT CREATE ON DATABASE '' @ db @ '' TO '' @ to_string usr,
      ''CREATE SCHEMA IF NOT EXISTS '' @ to_string sc,
      ''REVOKE CREATE ON SCHEMA public FROM PUBLIC'',
      ''REVOKE ALL ON DATABASE '' @ db @ '' FROM PUBLIC'',
      ''GRANT USAGE, CREATE ON SCHEMA '' @ to_string sc @ '' TO '' @ to_string usr,
      ''ALTER DEFAULT PRIVILEGES IN SCHEMA '' @ to_string sc
        @ '' GRANT ALL PRIVILEGES ON TABLES TO '' @ to_string usr,
      ''GRANT ALL PRIVILEGES on DATABASE '' @ db @ '' to '' @ to_string usr,
      ''ALTER DATABASE '' @ db @ '' OWNER TO '' @ to_string usr]"

text \<open>
  The default database name as the specification words it: the username with a trailing
  \<^verbatim>\<open>_user\<close> suffix stripped.
\<close>

definition strip_user_suffix :: "string \<Rightarrow> string" where
  "strip_user_suffix u =
     (if 5 \<le> length u \<and> drop (length u - 5) u = ''_user'' then take (length u - 5) u else u)"

text \<open>The database and the schema that lines 58 to 60 resolve.\<close>

definition target :: "world \<Rightarrow> error + string \<times> prim" where
  "target w = (case load_settings w of Inl e \<Rightarrow> Inl e | Inr s \<Rightarrow> Inr (database s, schema s))"

subsection \<open>Concrete worlds\<close>

text \<open>
  A secrets manager holding the credentials of the test suite, a parser that knows their
  payloads, and a database server on which every call resolves. The environment and the
  answers to queries vary from one scenario to the next.
\<close>

definition master_payload :: string where
  \<open>master_payload = ''{"username":"admin_user","password":"admin_password"}''\<close>

definition app_payload :: string where
  \<open>app_payload = ''{"username":"myapp_user","password":"myapp_password"}''\<close>

definition odd_payload :: string where
  \<open>odd_payload = ''{"username":"my_user_app","password":"myapp_password"}''\<close>

definition cdc_payload :: string where
  \<open>cdc_payload = ''{"username":"cdc_user","password":"cdc_password"}''\<close>

definition stub_send :: "string \<Rightarrow> error + string option" where
  "stub_send secretId =
     (if secretId = ''master-test'' then Inr (Some master_payload)
      else if secretId = ''app-test'' then Inr (Some app_payload)
      else if secretId = ''app-odd'' then Inr (Some odd_payload)
      else if secretId = ''cdc-test'' then Inr (Some cdc_payload)
      else if secretId = ''cdc-empty-object'' then Inr (Some ''{}'')
      else if secretId = ''cdc-invalid'' then Inr (Some ''{invalid-json'')
      else if secretId = ''cdc-undefined'' then Inr None
      else Inl (Rejected ''ResourceNotFoundException''))"

definition stub_parse :: "string \<Rightarrow> error + json" where
  "stub_parse text =
     (if text = master_payload
      then Inr (JObj [(''username'', JStr ''admin_user''), (''password'', JStr ''admin_password'')])
      else if text = app_payload
      then Inr (JObj [(''username'', JStr ''myapp_user''), (''password'', JStr ''myapp_password'')])
      else if text = odd_payload
      then Inr (JObj [(''username'', JStr ''my_user_app''), (''password'', JStr ''myapp_password'')])
      else if text = cdc_payload
      then Inr (JObj [(''username'', JStr ''cdc_user''), (''password'', JStr ''cdc_password'')])
      else if text = ''{}'' then Inr (JObj [])
      else Inl SyntaxError)"

definition test_env :: "string \<Rightarrow> string \<Rightarrow> string option \<Rightarrow> string option \<Rightarrow> env" where
  "test_env masterId appId cdcId names =
     \<lparr>MASTER_USER_SECRET = masterId, APP_USER_SECRET = appId, CDC_USER_SECRET = cdcId,
      APP_DATABASE_NAME = names,
      APP_SCHEMA_NAME = (case names of None \<Rightarrow> None | Some d \<Rightarrow> Some ''app_schema''),
      RDS_HOST = ''example''\<rparr>"

definition stub_world ::
  "env \<Rightarrow> (event list \<Rightarrow> client \<Rightarrow> string \<Rightarrow> error + json list) \<Rightarrow> world" where
  "stub_world e answers =
     \<lparr>process_env = e, secret_send = stub_send, JSON_parse = stub_parse,
      conn_database = (\<lambda>c. case cfg_database c of None \<Rightarrow> ''postgres'' | Some d \<Rightarrow> d),
      pg_connect = (\<lambda>h c. None), pg_query = answers, pg_end = (\<lambda>h c. None)\<rparr>"

text \<open>A fresh server: nothing exists yet. A provisioned server: everything exists.\<close>

definition fresh :: "event list \<Rightarrow> client \<Rightarrow> string \<Rightarrow> error + json list" where
  "fresh h c s =
     (if take 13 s = ''SELECT exists'' then Inr [JObj [(''exists'', JBool False)]] else Inr [])"

definition provisioned :: "event list \<Rightarrow> client \<Rightarrow> string \<Rightarrow> error + json list" where
  "provisioned h c s =
     (if take 13 s = ''SELECT exists'' then Inr [JObj [(''exists'', JBool True)]] else Inr [])"

text \<open>A server that rejects the revocation on the public schema.\<close>

definition rejecting :: "event list \<Rightarrow> client \<Rightarrow> string \<Rightarrow> error + json list" where
  "rejecting h c s =
     (if s = ''REVOKE CREATE ON SCHEMA public FROM PUBLIC'' then Inl (Rejected ''boom'')
      else fresh h c s)"

text \<open>
  The scenario of the test suite without a CDC secret, and the same with a CDC secret that
  holds credentials, an empty object, or text that is not JSON.
\<close>

definition scenario :: world where
  "scenario = stub_world (test_env ''master-test'' ''app-test'' None (Some ''app_database'')) fresh"

definition scenario_cdc :: world where
  "scenario_cdc =
     stub_world (test_env ''master-test'' ''app-test'' (Some ''cdc-test'') (Some ''app_database''))
       fresh"

definition scenario_empty_object :: world where
  "scenario_empty_object =
     stub_world
       (test_env ''master-test'' ''app-test'' (Some ''cdc-empty-object'') (Some ''app_database''))
       fresh"

definition scenario_invalid :: world where
  "scenario_invalid =
     stub_world
       (test_env ''master-test'' ''app-test'' (Some ''cdc-invalid'') (Some ''app_database''))
       fresh"

definition scenario_rejecting :: world where
  "scenario_rejecting =
     stub_world (test_env ''master-test'' ''app-test'' None (Some ''app_database'')) rejecting"

definition scenario_provisioned :: world where
  "scenario_provisioned =
     stub_world (test_env ''master-test'' ''app-test'' (Some ''cdc-test'') (Some ''app_database''))
       provisioned"

definition scenario_defaults :: world where
  "scenario_defaults = stub_world (test_env ''master-test'' ''app-test'' None None) fresh"

definition scenario_odd :: world where
  "scenario_odd = stub_world (test_env ''master-test'' ''app-odd'' None None) fresh"

text \<open>The scenario without a CDC secret, for a database whose name holds CDC text.\<close>

definition scenario_named :: world where
  "scenario_named =
     stub_world (test_env ''master-test'' ''app-test'' None (Some ''rds_replication_lab'')) fresh"

text \<open>The client that the scenarios build for the service phase.\<close>

definition scenario_service_client :: client where
  "scenario_service_client =
     \<lparr>conn = ServiceConn, cfg_database = Some ''app_database'', cfg_user = JStr ''admin_user'',
      cfg_password = JStr ''admin_password'', cfg_host = ''example'', cfg_port = 5432\<rparr>"

section \<open>Properties\<close>

subsection \<open>How a run decomposes into sessions\<close>

lemma bind_cases:
  assumes "bind m f h = (r, tr)"
  obtains (fail) e where "m h = (Inl e, tr)" "r = Inl e"
        | (ok) x e1 e2 where "m h = (Inr x, e1)" "f x (h @ e1) = (r, e2)" "tr = e1 @ e2"
  using assms by (auto simp: bind_def split: prod.splits sum.splits)

lemma outcome_simps [simp]:
  "outcome None = Inr ()" "outcome (Some e) = Inl e"
  "(outcome x = Inr u) = (x = None)" "(outcome x = Inl e) = (x = Some e)"
  "(Inr u = outcome x) = (x = None)" "(Inl e = outcome x) = (x = Some e)"
  by (auto simp: outcome_def split: option.splits)

lemma io_events_simps [simp]:
  "io_events w c [] = []"
  "io_events w c ((s, q) # sq) = Log (log_line w c s) # Submit c s q # io_events w c sq"
  "io_events w c (sq @ sq') = io_events w c sq @ io_events w c sq'"
  by (simp_all add: io_events_def)

lemma query_trace:
  assumes "query w c s h = (r, tr)"
  shows "tr = io_events w c [(s, r)]"
  using assms by (auto simp: query_def Let_def)

lemma lift_result: "lift x h = (r, tr) \<Longrightarrow> r = x \<and> tr = []"
  by (simp add: lift_def)

lemma return_result: "return x h = (r, tr) \<Longrightarrow> r = Inr x \<and> tr = []"
  by (simp add: return_def)

lemma ensure_trace:
  assumes "ensure w c chk crt h = (rb, evb)"
  shows "\<exists>sq e. evb = io_events w c sq \<and> rb = outcome e \<and> ensure_run chk crt sq e"
proof -
  from assms have b:
    "bind (query w c chk) (\<lambda>rows. bind (lift (first_row_exists rows)) (\<lambda>found.
       if \<not> truthy found then bind (query w c crt) (\<lambda>_. return ()) else return ())) h
     = (rb, evb)"
    by (simp add: ensure_def)
  from b show ?thesis
  proof (cases rule: bind_cases)
    case (fail e)
    then have "evb = io_events w c [(chk, Inl e)]"
      using query_trace by blast
    moreover have "ensure_run chk crt [(chk, Inl e)] (Some e)"
      unfolding ensure_run_def
      by (rule exI [of _ "Inl e"]) (simp add: absent_def check_error_def)
    ultimately show ?thesis
      using fail by (intro exI [of _ "[(chk, Inl e)]"] exI [of _ "Some e"]) simp
  next
    case (ok rows e1 e2)
    then have e1: "e1 = io_events w c [(chk, Inr rows)]"
      using query_trace by blast
    from ok(2) show ?thesis
    proof (cases rule: bind_cases)
      case (fail e)
      then have f: "first_row_exists rows = Inl e" "e2 = []"
        by (auto dest: lift_result)
      have "ensure_run chk crt [(chk, Inr rows)] (Some e)"
        unfolding ensure_run_def
        by (rule exI [of _ "Inr rows"]) (simp add: absent_def check_error_def f)
      then show ?thesis
        using fail f e1 ok(3)
        by (intro exI [of _ "[(chk, Inr rows)]"] exI [of _ "Some e"]) simp
    next
      case inner: (ok found e3 e4)
      then have f: "first_row_exists rows = Inr found" "e3 = []"
        by (auto dest: lift_result)
      show ?thesis
      proof (cases "truthy found")
        case True
        with inner(2) have "rb = Inr ()" "e4 = []"
          by (auto dest: return_result)
        moreover have "ensure_run chk crt [(chk, Inr rows)] None"
          unfolding ensure_run_def
          by (rule exI [of _ "Inr rows"]) (simp add: absent_def check_error_def f True)
        ultimately show ?thesis
          using f e1 ok(3) inner(3)
          by (intro exI [of _ "[(chk, Inr rows)]"] exI [of _ None]) simp
      next
        case False
        with inner(2) have c:
          "bind (query w c crt) (\<lambda>_. return ()) (h @ e1 @ e3) = (rb, e4)"
          by simp
        from c show ?thesis
        proof (cases rule: bind_cases)
          case (fail e)
          then have "e4 = io_events w c [(crt, Inl e)]"
            using query_trace by blast
          moreover have "ensure_run chk crt [(chk, Inr rows), (crt, Inl e)] (Some e)"
            unfolding ensure_run_def
            by (rule exI [of _ "Inr rows"], rule exI [of _ "Inl e"])
               (simp add: absent_def query_error_def f False)
          ultimately show ?thesis
            using fail f e1 ok(3) inner(3)
            by (intro exI [of _ "[(chk, Inr rows), (crt, Inl e)]"] exI [of _ "Some e"]) simp
        next
          case last: (ok x e5 e6)
          then have "e5 = io_events w c [(crt, Inr x)]" "rb = Inr ()" "e6 = []"
            by (auto dest: query_trace return_result)
          moreover have "ensure_run chk crt [(chk, Inr rows), (crt, Inr x)] None"
            unfolding ensure_run_def
            by (rule exI [of _ "Inr rows"], rule exI [of _ "Inr x"])
               (simp add: absent_def query_error_def f False)
          ultimately show ?thesis
            using f e1 ok(3) inner(3) last(3)
            by (intro exI [of _ "[(chk, Inr rows), (crt, Inr x)]"] exI [of _ None]) simp
        qed
      qed
    qed
  qed
qed

lemma all_ok_simps [simp]:
  "all_ok []" "all_ok ((s, q) # sq) = (succeeded q \<and> all_ok sq)"
  "all_ok (sq @ sq') = (all_ok sq \<and> all_ok sq')"
  by (simp_all add: all_ok_def)

lemma query_all_trace:
  "query_all w c ss h = (rb, evb) \<Longrightarrow>
     \<exists>sq e. evb = io_events w c sq \<and> rb = outcome e \<and> list_run ss sq e"
proof (induction ss arbitrary: h rb evb)
  case Nil
  then show ?case
    by (auto simp: return_def list_run_def intro!: exI [of _ "[]"])
next
  case (Cons s ss)
  from Cons.prems have b: "bind (query w c s) (\<lambda>_. query_all w c ss) h = (rb, evb)"
    by simp
  from b show ?case
  proof (cases rule: bind_cases)
    case (fail e)
    then have "evb = io_events w c [(s, Inl e)]"
      using query_trace by blast
    moreover have "list_run (s # ss) [(s, Inl e)] (Some e)"
      by (auto simp: list_run_def intro!: exI [of _ "[]"])
    ultimately show ?thesis
      using fail by (intro exI [of _ "[(s, Inl e)]"] exI [of _ "Some e"]) simp
  next
    case (ok x e1 e2)
    then have e1: "e1 = io_events w c [(s, Inr x)]"
      using query_trace by blast
    from Cons.IH [OF ok(2)] obtain sq e where
      sq: "e2 = io_events w c sq" "rb = outcome e" "list_run ss sq e"
      by blast
    have "list_run (s # ss) ((s, Inr x) # sq) e"
      using sq(3) unfolding list_run_def
      by (elim disjE exE conjE) (auto intro: exI [of _ "(s, Inr x) # _"])
    then show ?thesis
      using ok(3) e1 sq by (intro exI [of _ "(s, Inr x) # sq"] exI [of _ e]) simp
  qed
qed


lemma main_body_trace:
  assumes "bind (ensure w c (database_exists_statement (database s))
                   (create_database_statement (database s)))
             (\<lambda>_. ensure w c (role_exists_statement (username s))
                     (create_user_statement (username s) (password s))) h = (rb, evb)"
  shows "\<exists>sq e. evb = io_events w c sq \<and> rb = outcome e \<and> main_run s sq e"
  using assms
proof (cases rule: bind_cases)
  case (fail e)
  from ensure_trace [OF fail(1)] obtain sq e' where
    "evb = io_events w c sq" "Inl e = outcome e'"
    "ensure_run (database_exists_statement (database s))
       (create_database_statement (database s)) sq e'"
    by blast
  then show ?thesis
    using fail(2) unfolding main_run_def
    by (intro exI [of _ sq] exI [of _ "Some e"]) auto
next
  case (ok x e1 e2)
  from ensure_trace [OF ok(1)] obtain sqa ea where a:
    "e1 = io_events w c sqa" "Inr x = outcome ea"
    "ensure_run (database_exists_statement (database s))
       (create_database_statement (database s)) sqa ea"
    by blast
  from ensure_trace [OF ok(2)] obtain sqb eb where b:
    "e2 = io_events w c sqb" "rb = outcome eb"
    "ensure_run (role_exists_statement (username s))
       (create_user_statement (username s) (password s)) sqb eb"
    by blast
  from a(2) have "ea = None" by simp
  with a b show ?thesis
    using ok(3) unfolding main_run_def
    by (intro exI [of _ "sqa @ sqb"] exI [of _ eb]) auto
qed

lemma session_trace:
  assumes "session w c body h = (r, tr)"
    and body: "\<And>h rb evb. body h = (rb, evb) \<Longrightarrow>
                 \<exists>sq e. evb = io_events w c sq \<and> rb = outcome e \<and> B sq e"
  shows "\<exists>S. tr = session_events w S \<and> session_of c B S \<and> r = outcome (session_error S)"
proof (cases "pg_connect w h c")
  case (Some e)
  with assms(1) have "tr = [Connect c (Some e)]" "r = Inl e"
    by (auto simp: session_def bind_def connect_def Let_def)
  then show ?thesis
    by (intro exI [of _ "Refused c e"]) (simp add: session_of_def)
next
  case None
  obtain rb evb where b: "body (h @ [Connect c None]) = (rb, evb)"
    by (cases "body (h @ [Connect c None])") auto
  from body [OF b] obtain sq e where
    sq: "evb = io_events w c sq" "rb = outcome e" "B sq e"
    by blast
  define re where "re = pg_end w (h @ Connect c None # evb) c"
  from assms(1) None b have
    "tr = Connect c None # evb @ [End c re]"
    "r = (case re of None \<Rightarrow> rb | Some e' \<Rightarrow> Inl e')"
    by (auto simp: session_def bind_def connect_def try_finally_def conn_end_def Let_def re_def
          split: option.splits)
  with sq show ?thesis
    by (intro exI [of _ "Closed c sq e re"]) (auto simp: session_of_def split: option.splits)
qed

lemma main_phase_trace:
  assumes "main_phase w s h = (r, tr)"
  shows "\<exists>S. tr = session_events w S \<and> main_session w s S \<and> r = outcome (session_error S)"
  unfolding main_session_def
  by (rule session_trace [where body = "bind (ensure w (mainConn w s) (database_exists_statement (database s))
                  (create_database_statement (database s))) (\<lambda>_.
            ensure w (mainConn w s) (role_exists_statement (username s))
              (create_user_statement (username s) (password s)))" and h = h])
     (use assms in \<open>simp add: main_phase_def session_def\<close>, rule main_body_trace)

lemma service_phase_trace:
  assumes "service_phase w s h = (r, tr)"
  shows "\<exists>S. tr = session_events w S \<and> service_session w s S \<and> r = outcome (session_error S)"
  unfolding service_session_def
  by (rule session_trace [where body = "query_all w (serviceConn w s)
            (service_statements (database s) (schema s) (username s))" and h = h])
     (use assms in \<open>simp add: service_phase_def session_def\<close>, rule query_all_trace)


lemma bind_assoc: "bind (bind m f) g = bind m (\<lambda>x. bind (f x) g)"
  by (rule ext) (auto simp: bind_def split: prod.splits sum.splits)

lemma bind_lift_Inr: "bind (lift (Inr x)) f = f x"
  by (rule ext) (simp add: bind_def lift_def split: prod.splits)

lemma ensure_session_trace:
  assumes "session w c (ensure w c chk crt) h = (r, tr)"
  shows "\<exists>S. tr = session_events w S \<and> session_of c (ensure_run chk crt) S \<and>
             r = outcome (session_error S)"
  by (rule session_trace [OF assms]) (rule ensure_trace)

lemma list_session_trace:
  assumes "session w c (query_all w c ss) h = (r, tr)"
  shows "\<exists>S. tr = session_events w S \<and> session_of c (list_run ss) S \<and>
             r = outcome (session_error S)"
  by (rule session_trace [OF assms]) (rule query_all_trace)

lemma get_prop_truthy: "truthy_json v \<Longrightarrow> get_prop v name = Inr (own_prop v name)"
proof (cases v)
  case (JPrim p)
  assume "truthy_json v"
  with JPrim show ?thesis
    by (cases p) (simp_all add: own_prop_def)
qed (simp_all add: own_prop_def)

lemma cdc_phase_trace:
  assumes "cdc_phase w s h = (r, tr)" and t: "truthy_json (cdcUserSecret s)"
  shows "(\<exists>S3 e. tr = session_events w S3 \<and> admin_session w s S3 \<and>
                  session_error S3 = Some e \<and> r = Inl e) \<or>
         (\<exists>S3 S4. tr = session_events w S3 @ session_events w S4 \<and> admin_session w s S3 \<and>
                  session_error S3 = None \<and> cdcDb_session w s S4 \<and>
                  r = outcome (session_error S4))"
proof -
  let ?u = "cdcUsername s" and ?p = "cdcPassword s"
  let ?admin = "session w (adminConn w s)
      (ensure w (adminConn w s) (role_exists_statement ?u) (create_user_statement ?u ?p))"
  let ?db = "session w (cdcDbConn w s)
      (query_all w (cdcDbConn w s) (cdc_statements (database s) (schema s) ?u))"
  have "cdc_phase w s h = bind ?admin (\<lambda>_. ?db) h"
    using t
    by (simp add: cdc_phase_def session_def get_prop_truthy cdcUsername_def cdcPassword_def
          bind_lift_Inr bind_assoc)
  with assms(1) have "bind ?admin (\<lambda>_. ?db) h = (r, tr)"
    by simp
  then show ?thesis
  proof (cases rule: bind_cases)
    case (fail e)
    from ensure_session_trace [OF fail(1)]
    obtain S where "tr = session_events w S" "admin_session w s S"
      "Inl e = outcome (session_error S)"
      unfolding admin_session_def by blast
    with fail(2) show ?thesis
      by (intro disjI1 exI [of _ S] exI [of _ e]) simp
  next
    case (ok x e1 e2)
    from ensure_session_trace [OF ok(1)]
    obtain S3 where S3: "e1 = session_events w S3" "admin_session w s S3"
      "Inr x = outcome (session_error S3)"
      unfolding admin_session_def by blast
    from list_session_trace [OF ok(2)]
    obtain S4 where S4: "e2 = session_events w S4" "cdcDb_session w s S4"
      "r = outcome (session_error S4)"
      unfolding cdcDb_session_def by blast
    from S3 S4 ok(3) show ?thesis
      by (intro disjI2 exI [of _ S3] exI [of _ S4]) simp
  qed
qed

lemma run_trace:
  assumes "run w s [] = (r, tr)"
  shows "\<exists>ss. tr = run_events w ss \<and> run_sessions w s r ss"
proof -
  from assms have
    "bind (main_phase w s) (\<lambda>_. bind (service_phase w s) (\<lambda>_.
       if truthy_json (cdcUserSecret s)
       then bind (cdc_phase w s) (\<lambda>_. lift (ready_message s))
       else return skipped_message)) [] = (r, tr)"
    by (simp add: run_def)
  then show ?thesis
  proof (cases rule: bind_cases)
    case (fail e)
    from main_phase_trace [OF fail(1)] obtain S1 where
      "tr = session_events w S1" "main_session w s S1" "session_error S1 = Some e"
      by auto
    with fail(2) show ?thesis
      by (intro exI [of _ "[S1]"]) (simp add: run_events_def run_sessions_def)
  next
    case m: (ok x e1 e2)
    from main_phase_trace [OF m(1)] obtain S1 where
      S1: "e1 = session_events w S1" "main_session w s S1" "session_error S1 = None"
      by auto
    from m(2) show ?thesis
    proof (cases rule: bind_cases)
      case (fail e)
      from service_phase_trace [OF fail(1)] obtain S2 where
        "e2 = session_events w S2" "service_session w s S2" "session_error S2 = Some e"
        by auto
      with fail(2) S1 m(3) show ?thesis
        by (intro exI [of _ "[S1, S2]"]) (simp add: run_events_def run_sessions_def)
    next
      case v: (ok y e3 e4)
      from service_phase_trace [OF v(1)] obtain S2 where
        S2: "e3 = session_events w S2" "service_session w s S2" "session_error S2 = None"
        by auto
      show ?thesis
      proof (cases "truthy_json (cdcUserSecret s)")
        case False
        with v(2) have "r = Inr skipped_message" "e4 = []"
          by (auto dest: return_result)
        with S1 S2 m(3) v(3) False show ?thesis
          by (intro exI [of _ "[S1, S2]"]) (simp add: run_events_def run_sessions_def)
      next
        case True
        with v(2) have
          "bind (cdc_phase w s) (\<lambda>_. lift (ready_message s)) (e1 @ e3) = (r, e4)"
          by simp
        then show ?thesis
        proof (cases rule: bind_cases)
          case (fail e)
          from cdc_phase_trace [OF fail(1) True] show ?thesis
          proof (elim disjE exE conjE)
            fix S3 e'
            assume "e4 = session_events w S3" "admin_session w s S3"
              "session_error S3 = Some e'" "Inl e = Inl e'"
            with fail(2) S1 S2 m(3) v(3) True show ?thesis
              by (intro exI [of _ "[S1, S2, S3]"]) (simp add: run_events_def run_sessions_def)
          next
            fix S3 S4
            assume "e4 = session_events w S3 @ session_events w S4" "admin_session w s S3"
              "session_error S3 = None" "cdcDb_session w s S4"
              "Inl e = outcome (session_error S4)"
            with fail(2) S1 S2 m(3) v(3) True show ?thesis
              by (intro exI [of _ "[S1, S2, S3, S4]"])
                 (simp add: run_events_def run_sessions_def)
          qed
        next
          case c: (ok z e5 e6)
          from c(2) have msg: "r = ready_message s" "e6 = []"
            by (auto dest: lift_result)
          from cdc_phase_trace [OF c(1) True] show ?thesis
          proof (elim disjE exE conjE)
            fix S3 and e' :: error
            assume "(Inr z :: error + unit) = Inl e'"
            then show ?thesis by simp
          next
            fix S3 S4
            assume "e5 = session_events w S3 @ session_events w S4" "admin_session w s S3"
              "session_error S3 = None" "cdcDb_session w s S4"
              "Inr z = outcome (session_error S4)"
            with msg c(3) S1 S2 m(3) v(3) True show ?thesis
              by (intro exI [of _ "[S1, S2, S3, S4]"])
                 (simp add: run_events_def run_sessions_def)
          qed
        qed
      qed
    qed
  qed
qed

lemma handler_trace:
  assumes "load_settings w = Inr s" and "handler w = (r, tr)"
  shows "\<exists>ss. tr = run_events w ss \<and> run_sessions w s r ss"
  using assms run_trace [of w s r tr] by (simp add: handler_def)


lemma conn_clients [simp]:
  "conn (mainConn w s) = MainConn" "conn (serviceConn w s) = ServiceConn"
  "conn (adminConn w s) = AdminConn" "conn (cdcDbConn w s) = CdcDbConn"
  by (simp_all add: mainConn_def serviceConn_def adminConn_def cdcDbConn_def)

lemma session_clients:
  "main_session w s S \<Longrightarrow> session_client S = mainConn w s"
  "service_session w s S \<Longrightarrow> session_client S = serviceConn w s"
  "admin_session w s S \<Longrightarrow> session_client S = adminConn w s"
  "cdcDb_session w s S \<Longrightarrow> session_client S = cdcDbConn w s"
  by (simp_all add: main_session_def service_session_def admin_session_def cdcDb_session_def
        session_of_def)

lemma run_events_simps [simp]:
  "run_events w [] = []"
  "run_events w (S # ss) = session_events w S @ run_events w ss"
  by (simp_all add: run_events_def)

lemma get_prop_error: "get_prop v name = Inl e \<Longrightarrow> e = TypeError"
  by (cases "(v, name)" rule: get_prop.cases) auto

lemma first_row_exists_error: "first_row_exists rows = Inl e \<Longrightarrow> e = TypeError"
  by (auto simp: first_row_exists_def dest: get_prop_error split: list.splits)

lemma ensure_run_coherent: "ensure_run chk crt sq rb \<Longrightarrow> body_coherent sq rb"
  unfolding ensure_run_def body_coherent_def
proof (elim exE disjE conjE)
  fix q q'
  assume "absent q" "sq = [(chk, q), (crt, q')]" "rb = query_error q'"
  then show "(all_ok sq \<and> (rb = None \<or> rb = Some TypeError)) \<or>
      (\<exists>sq' s e. sq = sq' @ [(s, Inl e)] \<and> all_ok sq' \<and> rb = Some e)"
    by (cases q; cases q') (auto simp: absent_def query_error_def)
next
  fix q q' :: "error + json list"
  assume "\<not> absent q" "sq = [(chk, q)]" "rb = check_error q"
  then show "(all_ok sq \<and> (rb = None \<or> rb = Some TypeError)) \<or>
      (\<exists>sq' s e. sq = sq' @ [(s, Inl e)] \<and> all_ok sq' \<and> rb = Some e)"
    by (cases q) (auto simp: check_error_def dest: first_row_exists_error split: sum.splits)
qed

lemma list_run_coherent: "list_run ss sq rb \<Longrightarrow> body_coherent sq rb"
  unfolding list_run_def body_coherent_def by blast

lemma ensure_run_ok: "ensure_run chk crt sq None \<Longrightarrow> all_ok sq"
  unfolding ensure_run_def
proof (elim exE disjE conjE)
  fix q q'
  assume "absent q" "sq = [(chk, q), (crt, q')]" "None = query_error q'"
  then show "all_ok sq"
    by (cases q; cases q') (auto simp: absent_def query_error_def)
next
  fix q q' :: "error + json list"
  assume "sq = [(chk, q)]" "None = check_error q"
  then show "all_ok sq"
    by (cases q) (auto simp: check_error_def)
qed

lemma main_run_coherent: "main_run s sq rb \<Longrightarrow> body_coherent sq rb"
  unfolding main_run_def
proof (elim exE disjE conjE)
  fix sqa ea
  assume "ensure_run (database_exists_statement (database s))
            (create_database_statement (database s)) sqa ea" "sq = sqa" "rb = ea"
  then show ?thesis
    using ensure_run_coherent by blast
next
  fix sqa ea sqb
  assume a: "ensure_run (database_exists_statement (database s))
            (create_database_statement (database s)) sqa ea" "ea = None"
    and b: "ensure_run (role_exists_statement (username s))
            (create_user_statement (username s) (password s)) sqb rb" "sq = sqa @ sqb"
  from a have "all_ok sqa"
    using ensure_run_ok by blast
  moreover from b(1) have "body_coherent sqb rb"
    by (rule ensure_run_coherent)
  ultimately show ?thesis
    using b(2) unfolding body_coherent_def
  proof (elim disjE exE conjE)
    fix sq' s' e
    assume "all_ok sqa" "sq = sqa @ sqb" "sqb = sq' @ [(s', Inl e)]" "all_ok sq'" "rb = Some e"
    then have "sq = (sqa @ sq') @ [(s', Inl e)] \<and> all_ok (sqa @ sq') \<and> rb = Some e"
      by simp
    then show "(all_ok sq \<and> (rb = None \<or> rb = Some TypeError)) \<or>
      (\<exists>sq' s e. sq = sq' @ [(s, Inl e)] \<and> all_ok sq' \<and> rb = Some e)"
      by blast
  qed simp_all
qed

lemma session_of_coherent:
  assumes "session_of c B S" and "\<And>sq rb. B sq rb \<Longrightarrow> body_coherent sq rb"
  shows "session_coherent S"
  using assms by (cases S) (auto simp: session_of_def)

lemma sessions_coherent:
  "main_session w s S \<Longrightarrow> session_coherent S"
  "service_session w s S \<Longrightarrow> session_coherent S"
  "admin_session w s S \<Longrightarrow> session_coherent S"
  "cdcDb_session w s S \<Longrightarrow> session_coherent S"
  unfolding main_session_def service_session_def admin_session_def cdcDb_session_def
  by (erule session_of_coherent, erule main_run_coherent list_run_coherent ensure_run_coherent)+

subsection \<open>The concrete worlds, evaluated\<close>

lemmas model_defs =
  Let_def handler_def load_settings_def sbind_def parse_secret_def load_cdc_secret_def run_def
  main_phase_def service_phase_def cdc_phase_def bind_def try_finally_def connect_def
  conn_end_def query_def ensure_def lift_def return_def first_row_exists_def
  ready_message_def skipped_message_def get_prop_opt_def mainConn_def serviceConn_def
  adminConn_def cdcDbConn_def service_statements_def cdc_statements_def log_line_def
  quote_def database_exists_statement_def create_database_statement_def
  role_exists_statement_def create_user_statement_def

lemmas world_defs =
  scenario_def scenario_cdc_def scenario_empty_object_def scenario_invalid_def
  scenario_rejecting_def scenario_provisioned_def scenario_defaults_def scenario_odd_def
  scenario_named_def
  scenario_service_client_def stub_world_def test_env_def stub_send_def stub_parse_def master_payload_def
  app_payload_def odd_payload_def cdc_payload_def fresh_def provisioned_def rejecting_def


lemma scenario_cdc_settings:
  "load_settings scenario_cdc =
     Inr \<lparr>serviceSecret = JObj [(''username'', JStr ''myapp_user''), (''password'', JStr ''myapp_password'')],
          cdcUserSecret = JObj [(''username'', JStr ''cdc_user''), (''password'', JStr ''cdc_password'')],
          username = JStr ''myapp_user'', password = JStr ''myapp_password'',
          database = ''app_database'', schema = JStr ''app_schema'',
          adminUser = JStr ''admin_user'', adminPassword = JStr ''admin_password''\<rparr>"
  by (simp add: load_settings_def sbind_def parse_secret_def load_cdc_secret_def world_defs)

lemma scenario_cdc_result:
  "fst (handler scenario_cdc)
     = Inr (''Database '' @ quote @ ''app_database'' @ quote @ '' for username(s) '' @ quote
            @ ''myapp_user & cdc_user'' @ quote @ '' is ready for use!'')"
  by (simp add: model_defs world_defs)

lemma scenario_provisioned_settings:
  "load_settings scenario_provisioned =
     Inr \<lparr>serviceSecret = JObj [(''username'', JStr ''myapp_user''), (''password'', JStr ''myapp_password'')],
          cdcUserSecret = JObj [(''username'', JStr ''cdc_user''), (''password'', JStr ''cdc_password'')],
          username = JStr ''myapp_user'', password = JStr ''myapp_password'',
          database = ''app_database'', schema = JStr ''app_schema'',
          adminUser = JStr ''admin_user'', adminPassword = JStr ''admin_password''\<rparr>"
  by (simp add: load_settings_def sbind_def parse_secret_def load_cdc_secret_def world_defs)

lemma scenario_provisioned_quiet:
  "(stmt, q) \<in> set (submissions n (snd (handler scenario_provisioned))) \<Longrightarrow> \<not> absent q"
  apply (simp add: model_defs world_defs)
  apply (cases n)
  apply (auto simp: absent_def first_row_exists_def)
  done

lemma scenario_settings:
  "load_settings scenario =
     Inr \<lparr>serviceSecret = JObj [(''username'', JStr ''myapp_user''), (''password'', JStr ''myapp_password'')],
          cdcUserSecret = JPrim JUndefined,
          username = JStr ''myapp_user'', password = JStr ''myapp_password'',
          database = ''app_database'', schema = JStr ''app_schema'',
          adminUser = JStr ''admin_user'', adminPassword = JStr ''admin_password''\<rparr>"
  by (simp add: load_settings_def sbind_def parse_secret_def load_cdc_secret_def world_defs)

lemma scenario_empty_object_settings:
  "load_settings scenario_empty_object =
     Inr \<lparr>serviceSecret = JObj [(''username'', JStr ''myapp_user''), (''password'', JStr ''myapp_password'')],
          cdcUserSecret = JObj [],
          username = JStr ''myapp_user'', password = JStr ''myapp_password'',
          database = ''app_database'', schema = JStr ''app_schema'',
          adminUser = JStr ''admin_user'', adminPassword = JStr ''admin_password''\<rparr>"
  by (simp add: load_settings_def sbind_def parse_secret_def load_cdc_secret_def world_defs)

lemma scenario_result: "fst (handler scenario) = Inr skipped_message"
  by (simp add: model_defs world_defs)

lemma scenario_empty_object_result:
  "fst (handler scenario_empty_object)
     = Inr (''Database '' @ quote @ ''app_database'' @ quote @ '' for username(s) '' @ quote
            @ ''myapp_user'' @ quote @ '' is ready for use!'')"
  by (simp add: model_defs world_defs)

lemma scenario_empty_object_ran: "cdc_phase_ran (snd (handler scenario_empty_object))"
  by (simp add: model_defs world_defs cdc_phase_ran_def)


lemma scenario_rejecting_settings:
  "load_settings scenario_rejecting =
     Inr \<lparr>serviceSecret = JObj [(''username'', JStr ''myapp_user''), (''password'', JStr ''myapp_password'')],
          cdcUserSecret = JPrim JUndefined,
          username = JStr ''myapp_user'', password = JStr ''myapp_password'',
          database = ''app_database'', schema = JStr ''app_schema'',
          adminUser = JStr ''admin_user'', adminPassword = JStr ''admin_password''\<rparr>"
  by (simp add: load_settings_def sbind_def parse_secret_def load_cdc_secret_def world_defs)

lemma scenario_rejecting_result: "fst (handler scenario_rejecting) = Inl (Rejected ''boom'')"
  by (simp add: model_defs world_defs)

lemma scenario_empty_object_grant:
  "hd (submitted CdcDbConn (snd (handler scenario_empty_object)))
     = ''GRANT CONNECT ON DATABASE app_database TO undefined''"
  by (simp add: model_defs world_defs submitted_def)

lemma scenario_defaults_settings:
  "load_settings scenario_defaults =
     Inr \<lparr>serviceSecret = JObj [(''username'', JStr ''myapp_user''), (''password'', JStr ''myapp_password'')],
          cdcUserSecret = JPrim JUndefined,
          username = JStr ''myapp_user'', password = JStr ''myapp_password'',
          database = ''myapp'', schema = JStr ''myapp_user'',
          adminUser = JStr ''admin_user'', adminPassword = JStr ''admin_password''\<rparr>"
  by (simp add: load_settings_def sbind_def parse_secret_def load_cdc_secret_def world_defs)

subsection \<open>One connection at a time\<close>

lemma sequential_body: "sequential (Some c) (io_events w c sq @ rest) = sequential (Some c) rest"
  by (induction sq) auto

lemma sequential_clean:
  "session_error S = None \<Longrightarrow> sequential None (session_events w S @ rest) = sequential None rest"
  by (cases S) (auto simp: sequential_body split: option.splits)

lemma sequential_last: "sequential None (session_events w S)"
proof (cases S)
  case (Closed c sq rb re)
  then show ?thesis
    using sequential_body [of c w sq "[End c re]"] by simp
qed simp

lemma connections_body: "connections (io_events w c sq @ rest) = connections rest"
  by (induction sq) auto

lemma connections_session:
  "connections (session_events w S @ rest) = conn (session_client S) # connections rest"
  by (cases S) (simp_all add: connections_body)

lemma run_sessions_sequential:
  assumes "run_sessions w s r ss"
  shows "sequential None (run_events w ss) \<and>
         connections (run_events w ss)
           = take (length (connections (run_events w ss)))
               [MainConn, ServiceConn, AdminConn, CdcDbConn]"
  using assms unfolding run_sessions_def
  by (elim disjE exE conjE)
     (simp_all add: sequential_clean sequential_last [of w _, simplified]
        connections_session [of w _ "[]", simplified] connections_session session_clients)

text \<open>
  Claim C8. At every point of every run at most one connection is open, and each one is
  ended before the next connects: read along the trace, \<^verbatim>\<open>connect\<close> is only called
  while no client is open, statements only go to the open client, and only the open client
  is ended. The clients connect in the order main, service database, CDC admin, CDC
  database, so the admin connection is ended before the service-database connection
  connects, and that one before any connection of the CDC phase.
\<close>

theorem connections_never_overlap:
  "sequential None (snd (handler w)) \<and>
   connections (snd (handler w))
     = take (length (connections (snd (handler w))))
         [MainConn, ServiceConn, AdminConn, CdcDbConn]"
proof (cases "load_settings w")
  case (Inl e)
  then show ?thesis
    by (simp add: handler_def)
next
  case (Inr s)
  obtain r tr where h: "handler w = (r, tr)"
    by (cases "handler w") auto
  from handler_trace [OF Inr h] obtain ss where
    "tr = run_events w ss" "run_sessions w s r ss"
    by blast
  with h show ?thesis
    using run_sessions_sequential by simp
qed

theorem connections_never_overlap_witness:
  "sequential None (snd (handler scenario_cdc)) \<and>
   connections (snd (handler scenario_cdc)) = [MainConn, ServiceConn, AdminConn, CdcDbConn]"
proof -
  have "connections (snd (handler scenario_cdc)) = [MainConn, ServiceConn, AdminConn, CdcDbConn]"
    by (simp add: model_defs world_defs)
  then show ?thesis
    using connections_never_overlap [of scenario_cdc] by simp
qed

subsection \<open>A failed statement\<close>

lemma io_events_no_failure: "all_ok sq \<Longrightarrow> Submit c' s (Inl e) \<notin> set (io_events w c sq)"
  by (induction sq) auto

lemma clean_no_failure:
  assumes "session_error S = None" and "session_coherent S"
  shows "Submit c s (Inl e) \<notin> set (session_events w S)"
proof (cases S)
  case (Closed c' sq rb re)
  with assms have "all_ok sq"
    by (auto simp: body_coherent_def split: option.splits)
  with Closed show ?thesis
    by (simp add: io_events_no_failure)
qed simp

lemma count_ends_append [simp]: "count_ends c (a @ b) = count_ends c a + count_ends c b"
  by (induction a rule: count_ends.induct) auto

lemma count_ends_body [simp]: "count_ends c (io_events w c' sq) = 0"
  by (induction sq) auto

lemma count_ends_other: "session_client S \<noteq> c \<Longrightarrow> count_ends c (session_events w S) = 0"
  by (cases S) auto

lemma submit_in_body:
  "Submit c s q \<in> set (io_events w c' sq) \<Longrightarrow> c' = c \<and> (s, q) \<in> set sq"
  by (induction sq) auto

lemma failing_in_session:
  assumes "Submit c s (Inl e) \<in> set (session_events w S)" and "session_coherent S"
  shows "\<exists>pre re. session_events w S = pre @ [Submit c s (Inl e), End c re] \<and>
           session_client S = c \<and>
           session_error S = Some (case re of None \<Rightarrow> e | Some e' \<Rightarrow> e') \<and>
           count_ends c (session_events w S) = 1"
proof (cases S)
  case (Refused c' e')
  with assms show ?thesis by simp
next
  case (Closed c' sq rb re)
  with assms(1) have in_sq: "c' = c" "(s, Inl e) \<in> set sq"
    using submit_in_body by fastforce+
  then have "\<not> all_ok sq"
    by (auto simp: all_ok_def list_all_iff intro!: bexI [of _ "(s, Inl e)"])
  with assms(2) Closed obtain sq' s' e' where
    sq: "sq = sq' @ [(s', Inl e')]" "all_ok sq'" "rb = Some e'"
    by (auto simp: body_coherent_def)
  with in_sq(2) have "s' = s" "e' = e"
    by (auto simp: all_ok_def list_all_iff)
  with sq Closed in_sq(1) show ?thesis
    by (intro exI [of _ "Connect c None # io_events w c sq' @ [Log (log_line w c s)]"]
          exI [of _ re])
       (auto split: option.splits)
qed

lemma failure_in_last:
  assumes "\<forall>S'\<in>set cs. session_error S' = None \<and> session_coherent S' \<and>
             session_client S' \<noteq> session_client S"
    and "session_coherent S"
    and "Submit c q (Inl e) \<in> set (run_events w (cs @ [S]))"
  shows "\<exists>pre re. run_events w (cs @ [S]) = pre @ [Submit c q (Inl e), End c re] \<and>
           count_ends c (run_events w (cs @ [S])) = 1 \<and> session_client S = c \<and>
           session_error S = Some (case re of None \<Rightarrow> e | Some e' \<Rightarrow> e')"
  using assms
proof (induction cs)
  case Nil
  then show ?case
    using failing_in_session [of c q e w S] by auto
next
  case (Cons S' cs)
  from Cons.prems(1) have clean: "session_error S' = None" "session_coherent S'"
    "session_client S' \<noteq> session_client S"
    by auto
  with Cons.prems(3) have "Submit c q (Inl e) \<in> set (run_events w (cs @ [S]))"
    using clean_no_failure [of S' c q e w] by simp
  with Cons.IH Cons.prems obtain pre re where
    ih: "run_events w (cs @ [S]) = pre @ [Submit c q (Inl e), End c re]"
      "count_ends c (run_events w (cs @ [S])) = 1" "session_client S = c"
      "session_error S = Some (case re of None \<Rightarrow> e | Some e' \<Rightarrow> e')"
    by auto
  from clean(3) ih(3) have "count_ends c (session_events w S') = 0"
    using count_ends_other [of S' c w] by simp
  with ih show ?case
    by (intro exI [of _ "session_events w S' @ pre"] exI [of _ re]) simp
qed

lemma no_failure_when_clean:
  assumes "\<forall>S\<in>set cs. session_error S = None \<and> session_coherent S"
  shows "Submit c q (Inl e) \<notin> set (run_events w cs)"
  using assms by (induction cs) (auto simp: clean_no_failure)

lemma clients_distinct [simp]:
  "mainConn w s \<noteq> serviceConn w s" "mainConn w s \<noteq> adminConn w s"
  "mainConn w s \<noteq> cdcDbConn w s" "serviceConn w s \<noteq> adminConn w s"
  "serviceConn w s \<noteq> cdcDbConn w s" "adminConn w s \<noteq> cdcDbConn w s"
  by (simp_all add: mainConn_def serviceConn_def adminConn_def cdcDbConn_def)

lemma run_sessions_failure:
  assumes "run_sessions w s r ss" and "Submit c q (Inl e) \<in> set (run_events w ss)"
  shows "\<exists>pre re. run_events w ss = pre @ [Submit c q (Inl e), End c re] \<and>
           count_ends c (run_events w ss) = 1 \<and>
           r = Inl (case re of None \<Rightarrow> e | Some e' \<Rightarrow> e')"
  using assms(1) unfolding run_sessions_def
proof (elim disjE exE conjE)
  fix S1 e'
  assume a: "ss = [S1]" "main_session w s S1" "session_error S1 = Some e'" "r = Inl e'"
  with assms(2) show ?thesis
    using failure_in_last [of "[]" S1 c q e w] by (auto simp: sessions_coherent)
next
  fix S1 S2 e'
  assume a: "ss = [S1, S2]" "main_session w s S1" "session_error S1 = None"
    "service_session w s S2" "session_error S2 = Some e'" "r = Inl e'"
  with assms(2) show ?thesis
    using failure_in_last [of "[S1]" S2 c q e w]
    by (auto simp: sessions_coherent session_clients)
next
  fix S1 S2
  assume a: "ss = [S1, S2]" "main_session w s S1" "session_error S1 = None"
    "service_session w s S2" "session_error S2 = None"
  with assms(2) show ?thesis
    using no_failure_when_clean [of "[S1, S2]" c q e w] by (auto simp: sessions_coherent)
next
  fix S1 S2 S3 e'
  assume a: "ss = [S1, S2, S3]" "main_session w s S1" "session_error S1 = None"
    "service_session w s S2" "session_error S2 = None"
    "admin_session w s S3" "session_error S3 = Some e'" "r = Inl e'"
  with assms(2) show ?thesis
    using failure_in_last [of "[S1, S2]" S3 c q e w]
    by (auto simp: sessions_coherent session_clients)
next
  fix S1 S2 S3 S4
  assume a: "ss = [S1, S2, S3, S4]" "main_session w s S1" "session_error S1 = None"
    "service_session w s S2" "session_error S2 = None"
    "admin_session w s S3" "session_error S3 = None" "cdcDb_session w s S4"
    "r = (case session_error S4 of None \<Rightarrow> ready_message s | Some e \<Rightarrow> Inl e)"
  with assms(2) show ?thesis
    using failure_in_last [of "[S1, S2, S3]" S4 c q e w]
    by (auto simp: sessions_coherent session_clients)
qed

text \<open>
  Claim C4. If a statement submitted on a connection is rejected, the next and last thing
  the run does is to call \<^verbatim>\<open>end\<close> on that connection: nothing is retried, nothing is
  rolled back, no other statement follows. That client is ended exactly once in the whole
  run, and the handler throws: the error of the statement, or the error of \<^verbatim>\<open>end\<close> when
  that call rejects as well.
\<close>

theorem failed_statement_closes_connection:
  assumes "handler w = (r, tr)" and "Submit c statement (Inl e) \<in> set tr"
  shows "\<exists>pre re. tr = pre @ [Submit c statement (Inl e), End c re] \<and>
           count_ends c tr = 1 \<and>
           r = Inl (case re of None \<Rightarrow> e | Some e' \<Rightarrow> e')"
proof (cases "load_settings w")
  case (Inl e')
  with assms show ?thesis
    by (simp add: handler_def)
next
  case (Inr s)
  from handler_trace [OF Inr assms(1)] obtain ss where
    "tr = run_events w ss" "run_sessions w s r ss"
    by blast
  with assms(2) show ?thesis
    using run_sessions_failure by blast
qed

theorem failed_statement_closes_connection_witness:
  "\<exists>pre re.
     snd (handler scenario_rejecting)
       = pre @ [Submit scenario_service_client ''REVOKE CREATE ON SCHEMA public FROM PUBLIC''
                  (Inl (Rejected ''boom'')),
                End scenario_service_client re] \<and>
     count_ends scenario_service_client (snd (handler scenario_rejecting)) = 1 \<and>
     fst (handler scenario_rejecting)
       = Inl (case re of None \<Rightarrow> Rejected ''boom'' | Some e' \<Rightarrow> e')"
proof -
  have "Submit scenario_service_client ''REVOKE CREATE ON SCHEMA public FROM PUBLIC''
          (Inl (Rejected ''boom'')) \<in> set (snd (handler scenario_rejecting))"
    by (simp add: model_defs world_defs)
  then show ?thesis
    using failed_statement_closes_connection
      [of scenario_rejecting "fst (handler scenario_rejecting)"
          "snd (handler scenario_rejecting)"]
    by simp
qed

subsection \<open>The console\<close>

lemma logged_before_body: "logged_before w (io_events w c sq @ rest) = logged_before w rest"
  by (induction sq) auto

lemma logged_before_session:
  "logged_before w (session_events w S @ rest) = logged_before w rest"
proof (cases S)
  case (Closed c sq rb re)
  then show ?thesis
    using logged_before_body [of w c sq "End c re # rest"] by simp
qed simp

lemma logged_before_run: "logged_before w (run_events w ss)"
  by (induction ss) (simp_all add: logged_before_session)

lemma log_lines_append [simp]: "log_lines (a @ b) = log_lines a @ log_lines b"
  by (induction a rule: log_lines.induct) auto

lemma log_lines_body: "log_lines (io_events w c sq) = map (\<lambda>(s, q). log_line w c s) sq"
  by (induction sq) auto

lemma log_lines_session [simp]: "log_lines (session_events w S) = session_lines w S"
  by (cases S) (simp_all add: session_lines_def log_lines_body)

lemma cdc_lines_append [simp]: "cdc_lines w (a @ b) = cdc_lines w a @ cdc_lines w b"
  by (induction a rule: cdc_lines.induct) auto

lemma cdc_lines_body:
  "cdc_lines w (io_events w c sq) =
     (if conn c = AdminConn \<or> conn c = CdcDbConn then map (\<lambda>(s, q). log_line w c s) sq
      else [])"
  by (induction sq) auto

lemma cdc_lines_session:
  "cdc_lines w (session_events w S) =
     (if conn (session_client S) = AdminConn \<or> conn (session_client S) = CdcDbConn
      then session_lines w S else [])"
  by (cases S) (simp_all add: session_lines_def cdc_lines_body)

lemma ensure_run_head: "ensure_run chk crt sq rb \<Longrightarrow> \<exists>q t. sq = (chk, q) # t"
  by (auto simp: ensure_run_def)

lemma main_session_lines:
  assumes "main_session w s S" and "session_error S = None"
  shows "\<exists>pre mid. session_lines w S =
           log_line w (mainConn w s) (database_exists_statement (database s)) # pre @
           log_line w (mainConn w s) (role_exists_statement (username s)) # mid"
proof (cases S)
  case (Refused c e)
  with assms show ?thesis by simp
next
  case (Closed c sq rb re)
  with assms have c: "c = mainConn w s" and m: "main_run s sq None"
    by (auto simp: main_session_def session_of_def split: option.splits)
  from m obtain sqa sqb where
    "ensure_run (database_exists_statement (database s))
       (create_database_statement (database s)) sqa None"
    "ensure_run (role_exists_statement (username s))
       (create_user_statement (username s) (password s)) sqb None"
    "sq = sqa @ sqb"
    by (auto simp: main_run_def)
  then obtain q ta q' tb where
    "sq = ((database_exists_statement (database s), q) # ta) @
          ((role_exists_statement (username s), q') # tb)"
    using ensure_run_head by blast
  with Closed c show ?thesis
    by (intro exI [of _ "map (\<lambda>(x, q). log_line w (mainConn w s) x) ta"]
          exI [of _ "map (\<lambda>(x, q). log_line w (mainConn w s) x) tb"])
       (simp add: session_lines_def)
qed

lemma run_sessions_lines:
  assumes "run_sessions w s (Inr m) ss"
  shows "\<exists>pre mid. log_lines (run_events w ss) =
           log_line w (mainConn w s) (database_exists_statement (database s)) # pre @
           log_line w (mainConn w s) (role_exists_statement (username s)) # mid @
           cdc_lines w (run_events w ss)"
proof -
  from assms consider
    (skipped) S1 S2 where "ss = [S1, S2]" "main_session w s S1" "session_error S1 = None"
      "service_session w s S2"
  | (cdc) S1 S2 S3 S4 where "ss = [S1, S2, S3, S4]" "main_session w s S1"
      "session_error S1 = None" "service_session w s S2" "admin_session w s S3"
      "cdcDb_session w s S4"
    unfolding run_sessions_def by auto
  then show ?thesis
  proof cases
    case skipped
    from main_session_lines [OF skipped(2,3)] obtain pre mid where
      "session_lines w S1 =
         log_line w (mainConn w s) (database_exists_statement (database s)) # pre @
         log_line w (mainConn w s) (role_exists_statement (username s)) # mid"
      by blast
    with skipped show ?thesis
      by (intro exI [of _ pre] exI [of _ "mid @ session_lines w S2"])
         (simp add: cdc_lines_session session_clients)
  next
    case cdc
    from main_session_lines [OF cdc(2,3)] obtain pre mid where
      "session_lines w S1 =
         log_line w (mainConn w s) (database_exists_statement (database s)) # pre @
         log_line w (mainConn w s) (role_exists_statement (username s)) # mid"
      by blast
    with cdc show ?thesis
      by (intro exI [of _ pre] exI [of _ "mid @ session_lines w S2"])
         (simp add: cdc_lines_session session_clients)
  qed
qed

text \<open>
  Claim C9. In every successful run each statement is written to the console, as the line
  \<^verbatim>\<open>[database] statement\<close>, directly before it is submitted, and every console line is
  followed by its submission. The console shows the database-existence check first, the
  service-role-existence check somewhere after it, and the lines of all statements of the
  CDC phase after both, as the end of the output.
\<close>

theorem statements_logged_in_phase_order:
  assumes "load_settings w = Inr s" and "handler w = (Inr m, tr)"
  shows "logged_before w tr \<and>
         (\<exists>pre mid. log_lines tr =
            log_line w (mainConn w s) (database_exists_statement (database s)) # pre @
            log_line w (mainConn w s) (role_exists_statement (username s)) # mid @
            cdc_lines w tr)"
proof -
  from handler_trace [OF assms] obtain ss where
    "tr = run_events w ss" "run_sessions w s (Inr m) ss"
    by blast
  then show ?thesis
    using logged_before_run run_sessions_lines by blast
qed

theorem statements_logged_in_phase_order_witness:
  "logged_before scenario_cdc (snd (handler scenario_cdc)) \<and>
   (\<exists>pre mid. log_lines (snd (handler scenario_cdc)) =
      (''[postgres] SELECT exists(SELECT FROM pg_catalog.pg_database WHERE lower(datname) = ''
        @ ''lower('app_database'))'') # pre @
      ''[postgres] SELECT exists(SELECT FROM pg_roles WHERE rolname='myapp_user')'' # mid @
      cdc_lines scenario_cdc (snd (handler scenario_cdc)))"
proof -
  have "handler scenario_cdc
      = (Inr (''Database '' @ quote @ ''app_database'' @ quote @ '' for username(s) '' @ quote
            @ ''myapp_user & cdc_user'' @ quote @ '' is ready for use!''),
         snd (handler scenario_cdc))"
    using scenario_cdc_result by (metis prod.collapse)
  from statements_logged_in_phase_order [OF scenario_cdc_settings this] show ?thesis
    by (simp add: log_line_def mainConn_def database_exists_statement_def
          role_exists_statement_def quote_def world_defs)
qed

subsection \<open>Creation follows an absent check\<close>

lemma submissions_append [simp]:
  "submissions n (a @ b) = submissions n a @ submissions n b"
  by (induction a rule: submissions.induct) auto

lemma submissions_body:
  "submissions n (io_events w c sq) = (if conn c = n then sq else [])"
  by (induction sq) auto

lemma submissions_session:
  "submissions n (session_events w S) =
     (if conn (session_client S) = n then session_submissions S else [])"
  by (cases S) (simp_all add: submissions_body)

lemma statements_distinct [simp]:
  "database_exists_statement d \<noteq> create_database_statement d'"
  "database_exists_statement d \<noteq> role_exists_statement u"
  "database_exists_statement d \<noteq> create_user_statement u p"
  "create_database_statement d \<noteq> role_exists_statement u"
  "create_database_statement d \<noteq> create_user_statement u p"
  "role_exists_statement u \<noteq> create_user_statement u' p"
  "create_database_statement d' \<noteq> database_exists_statement d"
  "role_exists_statement u \<noteq> database_exists_statement d"
  "create_user_statement u p \<noteq> database_exists_statement d"
  "role_exists_statement u \<noteq> create_database_statement d"
  "create_user_statement u p \<noteq> create_database_statement d"
  "create_user_statement u' p \<noteq> role_exists_statement u"
  by (simp_all add: database_exists_statement_def create_database_statement_def
        role_exists_statement_def create_user_statement_def)

lemma ensure_run_guarded:
  assumes "ensure_run chk crt sq rb" and "chk \<noteq> crt"
  shows "guarded_by chk crt sq"
  using assms by (auto simp: ensure_run_def)

lemma main_run_guarded:
  assumes "main_run s sq rb"
  shows "guarded_by (database_exists_statement (database s))
           (create_database_statement (database s)) sq \<and>
         guarded_by (role_exists_statement (username s))
           (create_user_statement (username s) (password s)) sq"
  using assms unfolding main_run_def ensure_run_def
  by (elim exE disjE conjE) simp_all

lemma main_run_statements:
  assumes "main_run s sq rb" and "(stmt, q) \<in> set sq"
  shows "stmt = database_exists_statement (database s) \<or>
         stmt = create_database_statement (database s) \<or>
         stmt = role_exists_statement (username s) \<or>
         stmt = create_user_statement (username s) (password s)"
  using assms unfolding main_run_def ensure_run_def
  by (elim exE disjE conjE) auto

lemma ensure_run_statements:
  assumes "ensure_run chk crt sq rb" and "(stmt, q) \<in> set sq"
  shows "stmt = chk \<or> stmt = crt"
  using assms unfolding ensure_run_def by auto

lemma list_run_statements:
  assumes "list_run ss sq rb" and "(stmt, q) \<in> set sq"
  shows "stmt \<in> set ss"
proof -
  from assms(1) have "map fst sq = take (length sq) ss"
    by (auto simp: list_run_def)
  moreover from assms(2) have "stmt \<in> set (map fst sq)"
    by force
  ultimately show ?thesis
    by (metis in_set_takeD)
qed

lemma guarded_by_creation:
  "guarded_by chk crt sq \<Longrightarrow> (crt, q) \<in> set sq \<Longrightarrow> \<exists>q'. (chk, q') \<in> set sq \<and> absent q'"
  by (induction chk crt sq rule: guarded_by.induct) (auto split: if_splits)

lemma session_of_reached: "session_of c B S \<Longrightarrow> reached B (session_submissions S)"
  by (cases S) (auto simp: session_of_def reached_def)

lemma session_of_clean:
  "session_of c B S \<Longrightarrow> session_error S = None \<Longrightarrow> B (session_submissions S) None"
  by (cases S) (auto simp: session_of_def split: option.splits)

lemma reached_empty [simp]: "reached B []"
  by (simp add: reached_def)

lemma run_sessions_submissions:
  assumes "run_sessions w s r ss"
  shows "reached (main_run s) (submissions MainConn (run_events w ss)) \<and>
         reached (list_run (service_statements (database s) (schema s) (username s)))
           (submissions ServiceConn (run_events w ss)) \<and>
         reached (ensure_run (role_exists_statement (cdcUsername s))
                    (create_user_statement (cdcUsername s) (cdcPassword s)))
           (submissions AdminConn (run_events w ss)) \<and>
         reached (list_run (cdc_statements (database s) (schema s) (cdcUsername s)))
           (submissions CdcDbConn (run_events w ss))"
  using assms unfolding run_sessions_def
  by (elim disjE exE conjE)
     (simp_all add: submissions_session session_clients,
      (auto simp: main_session_def service_session_def admin_session_def cdcDb_session_def
         dest: session_of_reached)+)

lemma on_cdc_body:
  "list_ex on_cdc (io_events w c sq) = (sq \<noteq> [] \<and> (conn c = AdminConn \<or> conn c = CdcDbConn))"
  by (induction sq) auto

lemma on_cdc_session [simp]:
  "list_ex on_cdc (session_events w S) =
     (conn (session_client S) = AdminConn \<or> conn (session_client S) = CdcDbConn)"
  by (cases S) (auto simp: on_cdc_body)

lemma run_sessions_skipped:
  assumes "run_sessions w s r ss" and "\<not> truthy_json (cdcUserSecret s)"
  shows "\<not> list_ex on_cdc (run_events w ss) \<and> (\<forall>m. r = Inr m \<longrightarrow> m = skipped_message)"
  using assms unfolding run_sessions_def
  by (elim disjE exE conjE) (simp_all add: session_clients)

lemma run_sessions_cdc:
  assumes "run_sessions w s r ss" and "list_ex on_cdc (run_events w ss)"
  shows "truthy_json (cdcUserSecret s)"
  using assms run_sessions_skipped by blast

lemma run_sessions_success:
  assumes "run_sessions w s (Inr m) ss"
  shows "main_run s (submissions MainConn (run_events w ss)) None \<and>
         list_run (service_statements (database s) (schema s) (username s))
           (submissions ServiceConn (run_events w ss)) None \<and>
         (if truthy_json (cdcUserSecret s)
          then ensure_run (role_exists_statement (cdcUsername s))
                 (create_user_statement (cdcUsername s) (cdcPassword s))
                 (submissions AdminConn (run_events w ss)) None \<and>
               list_run (cdc_statements (database s) (schema s) (cdcUsername s))
                 (submissions CdcDbConn (run_events w ss)) None \<and>
               list_ex on_cdc (run_events w ss) \<and>
               ready_message s = Inr m
          else m = skipped_message)"
proof -
  from assms consider
    (skipped) S1 S2 where "ss = [S1, S2]" "main_session w s S1" "session_error S1 = None"
      "service_session w s S2" "session_error S2 = None"
      "\<not> truthy_json (cdcUserSecret s)" "m = skipped_message"
  | (cdc) S1 S2 S3 S4 where "ss = [S1, S2, S3, S4]" "main_session w s S1"
      "session_error S1 = None" "service_session w s S2" "session_error S2 = None"
      "truthy_json (cdcUserSecret s)" "admin_session w s S3" "session_error S3 = None"
      "cdcDb_session w s S4" "session_error S4 = None" "ready_message s = Inr m"
    unfolding run_sessions_def by (auto split: option.splits)
  then show ?thesis
  proof cases
    case skipped
    then show ?thesis
      by (auto simp: submissions_session session_clients main_session_def
            service_session_def dest: session_of_clean)
  next
    case cdc
    then show ?thesis
      by (auto simp: submissions_session session_clients main_session_def
            service_session_def admin_session_def cdcDb_session_def
            dest: session_of_clean)
  qed
qed

lemma main_statements_kind [simp]:
  "\<not> is_creation (database_exists_statement d)" "\<not> is_creation (role_exists_statement u)"
  "\<not> is_drop (database_exists_statement d)" "\<not> is_drop (role_exists_statement u)"
  "\<not> is_drop (create_database_statement d)" "\<not> is_drop (create_user_statement u p)"
  by (simp_all add: is_creation_def is_drop_def database_exists_statement_def
        role_exists_statement_def create_database_statement_def create_user_statement_def)

lemma service_statements_kind:
  "stmt \<in> set (service_statements d sc u) \<Longrightarrow> \<not> is_creation stmt \<and> \<not> is_drop stmt"
  by (auto simp: service_statements_def is_creation_def is_drop_def)

lemma cdc_statements_kind:
  "stmt \<in> set (cdc_statements d sc u) \<Longrightarrow> \<not> is_creation stmt \<and> \<not> is_drop stmt"
  by (auto simp: cdc_statements_def is_creation_def is_drop_def)

lemma reached_guarded:
  assumes "reached B sq" and "\<And>rb. B sq rb \<Longrightarrow> guarded_by chk crt sq"
  shows "guarded_by chk crt sq"
  using assms by (auto simp: reached_def)

lemma run_sessions_guarded:
  assumes "run_sessions w s r ss" and tr: "tr = run_events w ss"
  shows "guarded_by (database_exists_statement (database s))
           (create_database_statement (database s)) (submissions MainConn tr) \<and>
         guarded_by (role_exists_statement (username s))
           (create_user_statement (username s) (password s)) (submissions MainConn tr) \<and>
         guarded_by (role_exists_statement (cdcUsername s))
           (create_user_statement (cdcUsername s) (cdcPassword s)) (submissions AdminConn tr)"
proof -
  note r = run_sessions_submissions [OF assms(1), folded tr]
  from r have "reached (main_run s) (submissions MainConn tr)"
    by simp
  then have "guarded_by (database_exists_statement (database s))
           (create_database_statement (database s)) (submissions MainConn tr)"
    "guarded_by (role_exists_statement (username s))
           (create_user_statement (username s) (password s)) (submissions MainConn tr)"
    by (auto elim!: reached_guarded dest: main_run_guarded)
  moreover from r have
    "reached (ensure_run (role_exists_statement (cdcUsername s))
                    (create_user_statement (cdcUsername s) (cdcPassword s)))
           (submissions AdminConn tr)"
    by simp
  then have "guarded_by (role_exists_statement (cdcUsername s))
           (create_user_statement (cdcUsername s) (cdcPassword s)) (submissions AdminConn tr)"
    by (auto elim!: reached_guarded intro: ensure_run_guarded)
  ultimately show ?thesis
    by simp
qed

lemma run_sessions_kinds:
  assumes "run_sessions w s r ss" and tr: "tr = run_events w ss"
    and "(stmt, q) \<in> set (submissions n tr)"
  shows "\<not> is_drop stmt \<and>
         (is_creation stmt \<longrightarrow>
            (n = MainConn \<and> (stmt = create_database_statement (database s) \<or>
                              stmt = create_user_statement (username s) (password s))) \<or>
            (n = AdminConn \<and>
               stmt = create_user_statement (cdcUsername s) (cdcPassword s)))"
proof -
  note r = run_sessions_submissions [OF assms(1), folded tr]
  show ?thesis
  proof (cases n)
    case MainConn
    with r assms(3) obtain rb where "main_run s (submissions MainConn tr) rb"
      by (auto simp: reached_def)
    with assms(3) MainConn show ?thesis
      using main_run_statements [of s "submissions MainConn tr" rb stmt q] by auto
  next
    case ServiceConn
    with r assms(3) obtain rb where
      "list_run (service_statements (database s) (schema s) (username s))
         (submissions ServiceConn tr) rb"
      by (auto simp: reached_def)
    with assms(3) ServiceConn show ?thesis
      using list_run_statements service_statements_kind by blast
  next
    case AdminConn
    with r assms(3) obtain rb where
      "ensure_run (role_exists_statement (cdcUsername s))
         (create_user_statement (cdcUsername s) (cdcPassword s)) (submissions AdminConn tr) rb"
      by (auto simp: reached_def)
    with assms(3) AdminConn show ?thesis
      using ensure_run_statements
        [of "role_exists_statement (cdcUsername s)"
            "create_user_statement (cdcUsername s) (cdcPassword s)"
            "submissions AdminConn tr" rb stmt q]
      by auto
  next
    case CdcDbConn
    with r assms(3) obtain rb where
      "list_run (cdc_statements (database s) (schema s) (cdcUsername s))
         (submissions CdcDbConn tr) rb"
      by (auto simp: reached_def)
    with assms(3) CdcDbConn show ?thesis
      using list_run_statements cdc_statements_kind by blast
  qed
qed

text \<open>
  Claim C2. In every run, \<^verbatim>\<open>CREATE DATABASE\<close> is submitted directly after the database
  check that was answered absent in that run, and nowhere else; the same holds for
  \<^verbatim>\<open>CREATE USER\<close> of the service role after its role check, and for \<^verbatim>\<open>CREATE USER\<close>
  of the CDC role after its role check on the CDC admin connection. A check is answered
  absent when the \<^verbatim>\<open>exists\<close> of its first row is falsy, that is \<^verbatim>\<open>false\<close> for the
  boolean that PostgreSQL returns. So each check guards one creation, nothing is created
  twice for one check, and these three are the only creation statements of a run. No
  statement drops anything. In a run against a target where every check finds its entity,
  no creation statement is submitted at all.
\<close>

theorem creation_only_after_absent_check:
  assumes "load_settings w = Inr s" and "handler w = (r, tr)"
  shows "guarded_by (database_exists_statement (database s))
           (create_database_statement (database s)) (submissions MainConn tr) \<and>
         guarded_by (role_exists_statement (username s))
           (create_user_statement (username s) (password s)) (submissions MainConn tr) \<and>
         guarded_by (role_exists_statement (cdcUsername s))
           (create_user_statement (cdcUsername s) (cdcPassword s)) (submissions AdminConn tr) \<and>
         (\<forall>n stmt q. (stmt, q) \<in> set (submissions n tr) \<longrightarrow>
            \<not> is_drop stmt \<and>
            (is_creation stmt \<longrightarrow>
               (n = MainConn \<and> (stmt = create_database_statement (database s) \<or>
                                 stmt = create_user_statement (username s) (password s))) \<or>
               (n = AdminConn \<and>
                  stmt = create_user_statement (cdcUsername s) (cdcPassword s)))) \<and>
         ((\<forall>n stmt q. (stmt, q) \<in> set (submissions n tr) \<longrightarrow> \<not> absent q) \<longrightarrow>
          (\<forall>n stmt q. (stmt, q) \<in> set (submissions n tr) \<longrightarrow> \<not> is_creation stmt)) \<and>
         (\<forall>b rows. absent (Inr (JObj [(''exists'', JBool b)] # rows)) = (\<not> b))"
proof -
  from handler_trace [OF assms] obtain ss where
    ss: "run_sessions w s r ss" "tr = run_events w ss"
    by blast
  note g = run_sessions_guarded [OF ss]
  note k = run_sessions_kinds [OF ss]
  have "\<not> is_creation stmt"
    if quiet: "\<forall>n stmt q. (stmt, q) \<in> set (submissions n tr) \<longrightarrow> \<not> absent q"
      and mem: "(stmt, q) \<in> set (submissions n tr)" for n stmt q
  proof
    assume "is_creation stmt"
    with k [OF mem] consider
      "n = MainConn" "stmt = create_database_statement (database s)"
    | "n = MainConn" "stmt = create_user_statement (username s) (password s)"
    | "n = AdminConn" "stmt = create_user_statement (cdcUsername s) (cdcPassword s)"
      by blast
    then obtain m chk q' where "(chk, q') \<in> set (submissions m tr)" "absent q'"
      using g mem guarded_by_creation by cases blast+
    with quiet show False
      by blast
  qed
  moreover have "\<forall>b rows. absent (Inr (JObj [(''exists'', JBool b)] # rows)) = (\<not> b)"
    by (simp add: absent_def first_row_exists_def)
  ultimately show ?thesis
    using g k by blast
qed

theorem creation_only_after_absent_check_witness:
  "guarded_by
     (''SELECT exists(SELECT FROM pg_catalog.pg_database WHERE lower(datname) = ''
        @ ''lower('app_database'))'')
     ''CREATE DATABASE app_database''
     (submissions MainConn (snd (handler scenario_provisioned))) \<and>
   guarded_by ''SELECT exists(SELECT FROM pg_roles WHERE rolname='myapp_user')''
     (''CREATE USER myapp_user WITH ENCRYPTED PASSWORD 'myapp_password'' @ quote)
     (submissions MainConn (snd (handler scenario_provisioned))) \<and>
   guarded_by ''SELECT exists(SELECT FROM pg_roles WHERE rolname='cdc_user')''
     (''CREATE USER cdc_user WITH ENCRYPTED PASSWORD 'cdc_password'' @ quote)
     (submissions AdminConn (snd (handler scenario_provisioned))) \<and>
   list_all (\<lambda>(stmt, q). \<not> is_creation stmt)
     (submissions MainConn (snd (handler scenario_provisioned)) @
      submissions AdminConn (snd (handler scenario_provisioned)))"
proof -
  let ?tr = "snd (handler scenario_provisioned)"
  have h: "handler scenario_provisioned = (fst (handler scenario_provisioned), ?tr)"
    by simp
  note t = creation_only_after_absent_check [OF scenario_provisioned_settings h]
  from t have "\<forall>n stmt q. (stmt, q) \<in> set (submissions n ?tr) \<longrightarrow> \<not> is_creation stmt"
    using scenario_provisioned_quiet by blast
  then have "list_all (\<lambda>(stmt, q). \<not> is_creation stmt)
     (submissions MainConn ?tr @ submissions AdminConn ?tr)"
    by (auto simp: list_all_iff)
  moreover from t have
    "guarded_by (database_exists_statement ''app_database'')
       (create_database_statement ''app_database'') (submissions MainConn ?tr)"
    "guarded_by (role_exists_statement (JStr ''myapp_user''))
       (create_user_statement (JStr ''myapp_user'') (JStr ''myapp_password''))
       (submissions MainConn ?tr)"
    "guarded_by (role_exists_statement (JStr ''cdc_user''))
       (create_user_statement (JStr ''cdc_user'') (JStr ''cdc_password''))
       (submissions AdminConn ?tr)"
    by (simp_all add: cdcUsername_def cdcPassword_def own_prop_def)
  ultimately show ?thesis
    by (simp add: database_exists_statement_def create_database_statement_def
          role_exists_statement_def create_user_statement_def quote_def)
qed

subsection \<open>The error of a run that fails\<close>

lemma last_rejection_append:
  "last_rejection (a @ b) =
     (case last_rejection b of Some e \<Rightarrow> Some e | None \<Rightarrow> last_rejection a)"
  by (induction a) (auto split: option.splits)

lemma last_rejection_body: "all_ok sq \<Longrightarrow> last_rejection (io_events w c sq) = None"
  by (induction sq) (auto split: sum.splits)

lemma last_rejection_clean:
  assumes "session_error S = None" and "session_coherent S"
  shows "last_rejection (session_events w S) = None"
proof (cases S)
  case (Closed c sq rb re)
  with assms have "all_ok sq" "re = None"
    by (auto simp: body_coherent_def split: option.splits)
  with Closed show ?thesis
    by (simp add: last_rejection_append last_rejection_body)
qed (use assms in simp)

lemma last_rejection_failed:
  assumes "session_error S = Some e" and "session_coherent S"
  shows "e = (case last_rejection (session_events w S) of Some e' \<Rightarrow> e' | None \<Rightarrow> TypeError)"
proof (cases S)
  case (Refused c e')
  with assms show ?thesis by simp
next
  case (Closed c sq rb re)
  show ?thesis
  proof (cases re)
    case (Some e')
    with Closed assms show ?thesis
      by (simp add: last_rejection_append)
  next
    case None
    with Closed assms have rb: "rb = Some e" and co: "body_coherent sq rb"
      by simp_all
    from co rb consider "all_ok sq" "e = TypeError"
      | sq' s where "sq = sq' @ [(s, Inl e)]" "all_ok sq'"
      by (auto simp: body_coherent_def)
    then show ?thesis
    proof cases
      case 1
      with Closed None show ?thesis
        by (simp add: last_rejection_append last_rejection_body)
    next
      case 2
      with Closed None show ?thesis
        by (simp add: last_rejection_append)
    qed
  qed
qed

lemma run_error:
  assumes "\<forall>S'\<in>set cs. session_error S' = None \<and> session_coherent S'"
    and "session_coherent S" and "session_error S = Some e"
  shows "e = (case last_rejection (run_events w (cs @ [S])) of
                Some e' \<Rightarrow> e' | None \<Rightarrow> TypeError)"
  using assms
proof (induction cs)
  case Nil
  then show ?case
    using last_rejection_failed [of S e w] by simp
next
  case (Cons S' cs)
  then have "last_rejection (session_events w S') = None"
    using last_rejection_clean by simp
  with Cons show ?case
    by (simp add: last_rejection_append split: option.splits)
qed

lemma session_events_nonempty [simp]: "session_events w S \<noteq> []"
  by (cases S) simp_all

lemma run_sessions_error:
  assumes "run_sessions w s (Inl e) ss" and "\<exists>m. ready_message s = Inr m"
  shows "run_events w ss \<noteq> [] \<and>
         e = (case last_rejection (run_events w ss) of Some e' \<Rightarrow> e' | None \<Rightarrow> TypeError)"
proof -
  from assms consider
    (main) S1 where "ss = [] @ [S1]" "main_session w s S1" "session_error S1 = Some e"
  | (service) S1 S2 where "ss = [S1] @ [S2]" "main_session w s S1" "session_error S1 = None"
      "service_session w s S2" "session_error S2 = Some e"
  | (admin) S1 S2 S3 where "ss = [S1, S2] @ [S3]" "main_session w s S1"
      "session_error S1 = None" "service_session w s S2" "session_error S2 = None"
      "admin_session w s S3" "session_error S3 = Some e"
  | (cdcDb) S1 S2 S3 S4 where "ss = [S1, S2, S3] @ [S4]" "main_session w s S1"
      "session_error S1 = None" "service_session w s S2" "session_error S2 = None"
      "admin_session w s S3" "session_error S3 = None" "cdcDb_session w s S4"
      "session_error S4 = Some e"
    unfolding run_sessions_def by (auto simp: skipped_message_def split: option.splits)
  then show ?thesis
  proof cases
    case main
    then show ?thesis
      using run_error [of "[]" S1 e w] by (simp add: sessions_coherent)
  next
    case service
    then show ?thesis
      using run_error [of "[S1]" S2 e w] by (simp add: sessions_coherent)
  next
    case admin
    then show ?thesis
      using run_error [of "[S1, S2]" S3 e w] by (simp add: sessions_coherent)
  next
    case cdcDb
    then show ?thesis
      using run_error [of "[S1, S2, S3]" S4 e w] by (simp add: sessions_coherent)
  qed
qed

lemma run_clean:
  assumes "\<forall>S\<in>set ss. session_error S = None \<and> session_coherent S"
  shows "last_rejection (run_events w ss) = None"
  using assms
proof (induction ss)
  case Nil
  then show ?case by (simp add: run_events_def)
next
  case (Cons S ss)
  then have "last_rejection (session_events w S) = None"
    using last_rejection_clean by simp
  with Cons show ?case
    by (simp add: last_rejection_append)
qed

lemma run_sessions_clean:
  assumes "run_sessions w s (Inr m) ss"
  shows "last_rejection (run_events w ss) = None"
proof -
  from assms consider
    (skipped) S1 S2 where "ss = [S1, S2]" "main_session w s S1" "session_error S1 = None"
      "service_session w s S2" "session_error S2 = None"
  | (cdc) S1 S2 S3 S4 where "ss = [S1, S2, S3, S4]" "main_session w s S1"
      "session_error S1 = None" "service_session w s S2" "session_error S2 = None"
      "admin_session w s S3" "session_error S3 = None"
      "cdcDb_session w s S4" "session_error S4 = None"
    unfolding run_sessions_def by (auto split: option.splits)
  then show ?thesis
  proof cases
    case skipped
    then show ?thesis
      using run_clean [of ss w] by (simp add: sessions_coherent)
  next
    case cdc
    then show ?thesis
      using run_clean [of ss w] by (simp add: sessions_coherent)
  qed
qed

subsection \<open>Text inside a statement\<close>










subsection \<open>When the CDC phase runs\<close>

lemma get_prop_opt_value: "get_prop_opt v name = Inr (own_prop v name)"
proof (cases v)
  case (JPrim p)
  then show ?thesis
    by (cases p) (simp_all add: get_prop_opt_def own_prop_def)
qed (simp_all add: get_prop_opt_def own_prop_def)

lemma load_settings_fields:
  assumes "load_settings w = Inr s"
  shows "get_prop (serviceSecret s) ''username'' = Inr (username s)"
    and "load_cdc_secret w = Inr (cdcUserSecret s)"
  using assms unfolding load_settings_def sbind_def
  by (auto split: sum.splits)

lemma ready_message_value:
  assumes "load_settings w = Inr s"
  shows "ready_message s = Inr (ready_text (database s) (username s) (cdcUsername s))"
  using load_settings_fields(1) [OF assms]
  by (simp add: ready_message_def sbind_def get_prop_opt_value ready_text_def cdcUsername_def)

lemma load_cdc_secret_truthy:
  "load_cdc_secret w = Inr v \<Longrightarrow> truthy_json v = cdc_secret_usable w"
  unfolding load_cdc_secret_def cdc_secret_usable_def
  by (auto split: option.splits sum.splits if_splits)

lemma cdc_secret_usable:
  assumes "load_settings w = Inr s"
  shows "truthy_json (cdcUserSecret s) = cdc_secret_usable w"
  using load_settings_fields(2) [OF assms] by (rule load_cdc_secret_truthy)

lemma ensure_run_clean:
  assumes "ensure_run chk crt sq None"
  shows "map fst sq = [chk] \<or> map fst sq = [chk, crt]"
  using assms by (auto simp: ensure_run_def)

lemma list_run_clean: "list_run ss sq None \<Longrightarrow> map fst sq = ss"
  by (auto simp: list_run_def)

lemma handler_success:
  assumes "load_settings w = Inr s" and "handler w = (Inr m, tr)"
  shows "submitted ServiceConn tr = service_statements (database s) (schema s) (username s)"
    and "cdc_phase_ran tr = cdc_secret_usable w"
    and "cdc_secret_usable w \<Longrightarrow>
           (submitted AdminConn tr = [role_exists_statement (cdcUsername s)] \<or>
            submitted AdminConn tr = [role_exists_statement (cdcUsername s),
               create_user_statement (cdcUsername s) (cdcPassword s)]) \<and>
           submitted CdcDbConn tr = cdc_statements (database s) (schema s) (cdcUsername s) \<and>
           m = ready_text (database s) (username s) (cdcUsername s)"
    and "\<not> cdc_secret_usable w \<Longrightarrow> m = skipped_message"
proof -
  from handler_trace [OF assms] obtain ss where
    ss: "tr = run_events w ss" "run_sessions w s (Inr m) ss"
    by blast
  note ok = run_sessions_success [OF ss(2), folded ss(1)]
  note usable = cdc_secret_usable [OF assms(1)]
  from ok show "submitted ServiceConn tr = service_statements (database s) (schema s) (username s)"
    by (simp add: submitted_def list_run_clean)
  show "cdc_phase_ran tr = cdc_secret_usable w"
  proof (cases "truthy_json (cdcUserSecret s)")
    case True
    with ok usable show ?thesis
      by (simp add: cdc_phase_ran_def)
  next
    case False
    with run_sessions_skipped [OF ss(2)] usable ss(1) show ?thesis
      by (simp add: cdc_phase_ran_def)
  qed
  show "(submitted AdminConn tr = [role_exists_statement (cdcUsername s)] \<or>
            submitted AdminConn tr = [role_exists_statement (cdcUsername s),
               create_user_statement (cdcUsername s) (cdcPassword s)]) \<and>
           submitted CdcDbConn tr = cdc_statements (database s) (schema s) (cdcUsername s) \<and>
           m = ready_text (database s) (username s) (cdcUsername s)"
    if "cdc_secret_usable w"
    using that ok usable ready_message_value [OF assms(1)]
    by (auto simp: submitted_def dest: ensure_run_clean list_run_clean)
  show "m = skipped_message" if "\<not> cdc_secret_usable w"
    using that ok usable by simp
qed






lemma gate_truthy: "cdc_gate_PT_bootstrap_v2 v \<Longrightarrow> truthy_json v"
proof (cases v)
  case (JPrim p)
  then show "cdc_gate_PT_bootstrap_v2 v \<Longrightarrow> truthy_json v"
    by (cases p) (simp_all add: cdc_gate_PT_bootstrap_v2_def own_prop_def)
qed simp_all

lemma credentials_usable:
  assumes "cdc_credentials_given w"
  shows "cdc_secret_usable w"
proof -
  from assms obtain v where v: "load_cdc_secret w = Inr v" "cdc_gate_PT_bootstrap_v2 v"
    unfolding cdc_credentials_given_def by (cases "load_cdc_secret w") auto
  from gate_truthy [OF v(2)] load_cdc_secret_truthy [OF v(1)] show ?thesis
    by simp
qed








subsection \<open>A CDC secret without credentials\<close>

lemma join_service_only:
  "join sep (filter truthy [u, JUndefined]) = (if truthy u then to_string u else [])"
  by (cases u) auto

text \<open>
  Claim C10. If the CDC secret parses to an object that has neither a \<^verbatim>\<open>username\<close> nor
  a \<^verbatim>\<open>password\<close> (the payload \<^verbatim>\<open>{}\<close>, say), a successful run has executed the whole
  CDC phase with the text \<^verbatim>\<open>undefined\<close> as the role name and as the password: the role
  check, the creation where the check was answered absent, and the four statements on the
  database, such as \<^verbatim>\<open>GRANT CONNECT ON DATABASE db TO undefined\<close>. The message names the
  service username only, since the undefined CDC username is filtered out before joining.
\<close>

theorem secret_without_fields_runs_cdc_as_undefined:
  assumes "CDC_USER_SECRET (process_env w) = Some secretId" and "secretId \<noteq> []"
    and "secret_send w secretId = Inr (Some cdcRaw)" and "cdcRaw \<noteq> []"
    and "JSON_parse w cdcRaw = Inr (JObj kvs)"
    and "map_of kvs ''username'' = None" and "map_of kvs ''password'' = None"
    and "load_settings w = Inr s" and "handler w = (Inr m, tr)"
  shows "cdc_phase_ran tr \<and>
         (submitted AdminConn tr
            = [''SELECT exists(SELECT FROM pg_roles WHERE rolname='undefined')''] \<or>
          submitted AdminConn tr
            = [''SELECT exists(SELECT FROM pg_roles WHERE rolname='undefined')'',
               ''CREATE USER undefined WITH ENCRYPTED PASSWORD 'undefined'' @ quote]) \<and>
         submitted CdcDbConn tr
           = [''GRANT CONNECT ON DATABASE '' @ database s @ '' TO undefined'',
              ''GRANT SELECT ON ALL TABLES IN SCHEMA '' @ to_string (schema s)
                @ '' TO undefined'',
              ''GRANT rds_replication, rds_superuser TO undefined'',
              ''CREATE PUBLICATION IF NOT EXISTS cdc_publication FOR ALL TABLES''] \<and>
         m = ''Database '' @ quote @ database s @ quote @ '' for username(s) '' @ quote
               @ (if truthy (username s) then to_string (username s) else []) @ quote
               @ '' is ready for use!''"
proof -
  from assms(1-5) have cdc: "load_cdc_secret w = Inr (JObj kvs)"
    by (simp add: load_cdc_secret_def)
  with load_settings_fields(2) [OF assms(8)] have secret: "cdcUserSecret s = JObj kvs"
    by simp
  with assms(6,7) have undefined: "cdcUsername s = JUndefined" "cdcPassword s = JUndefined"
    by (simp_all add: cdcUsername_def cdcPassword_def own_prop_def)
  from cdc have usable: "cdc_secret_usable w"
    using load_cdc_secret_truthy by fastforce
  from handler_success(2,3) [OF assms(8,9)] usable undefined show ?thesis
    by (simp add: role_exists_statement_def create_user_statement_def cdc_statements_def
          ready_text_def join_service_only quote_def)
qed

theorem secret_without_fields_runs_cdc_as_undefined_witness:
  "cdc_phase_ran (snd (handler scenario_empty_object)) \<and>
   (submitted AdminConn (snd (handler scenario_empty_object))
      = [''SELECT exists(SELECT FROM pg_roles WHERE rolname='undefined')''] \<or>
    submitted AdminConn (snd (handler scenario_empty_object))
      = [''SELECT exists(SELECT FROM pg_roles WHERE rolname='undefined')'',
         ''CREATE USER undefined WITH ENCRYPTED PASSWORD 'undefined'' @ quote]) \<and>
   submitted CdcDbConn (snd (handler scenario_empty_object))
     = [''GRANT CONNECT ON DATABASE app_database TO undefined'',
        ''GRANT SELECT ON ALL TABLES IN SCHEMA app_schema TO undefined'',
        ''GRANT rds_replication, rds_superuser TO undefined'',
        ''CREATE PUBLICATION IF NOT EXISTS cdc_publication FOR ALL TABLES''] \<and>
   fst (handler scenario_empty_object)
     = Inr (''Database '' @ quote @ ''app_database'' @ quote @ '' for username(s) '' @ quote
            @ ''myapp_user'' @ quote @ '' is ready for use!'')"
proof -
  have h: "handler scenario_empty_object
      = (Inr (''Database '' @ quote @ ''app_database'' @ quote @ '' for username(s) '' @ quote
            @ ''myapp_user'' @ quote @ '' is ready for use!''),
         snd (handler scenario_empty_object))"
    using scenario_empty_object_result by (metis prod.collapse)
  have "CDC_USER_SECRET (process_env scenario_empty_object) = Some ''cdc-empty-object''"
    "secret_send scenario_empty_object ''cdc-empty-object'' = Inr (Some ''{}'')"
    "JSON_parse scenario_empty_object ''{}'' = Inr (JObj [])"
    by (simp_all add: world_defs)
  from secret_without_fields_runs_cdc_as_undefined
    [OF this(1) _ this(2) _ this(3) _ _ scenario_empty_object_settings h]
  show ?thesis
    using scenario_empty_object_result by simp
qed

subsection \<open>What the handler returns\<close>

lemma ready_text_both:
  "truthy a \<Longrightarrow> truthy b \<Longrightarrow>
     ready_text db a b =
       ''Database '' @ quote @ db @ quote @ '' for username(s) '' @ quote
         @ to_string a @ '' & '' @ to_string b @ quote @ '' is ready for use!''"
  by (cases a; cases b) (auto simp: ready_text_def)

lemma ready_text_service_only:
  "truthy a \<Longrightarrow> \<not> truthy b \<Longrightarrow>
     ready_text db a b =
       ''Database '' @ quote @ db @ quote @ '' for username(s) '' @ quote
         @ to_string a @ quote @ '' is ready for use!''"
  by (cases a) (auto simp: ready_text_def)

text \<open>
  The outcome of the handler on every world. A failure to read the secrets is thrown as it
  is, with nothing done. As soon as a call rejects (a connect, a statement, an
  \<^verbatim>\<open>end\<close>), the handler throws, and the error thrown is that of the last call that
  rejected. A run that succeeds returns the message of the CDC phase when the phase ran and
  the message that CDC was skipped otherwise.
\<close>

lemma handler_outcome:
  assumes "handler w = (r, tr)"
  shows "\<forall>e. load_settings w = Inl e \<longrightarrow> r = Inl e \<and> tr = []"
    and "\<forall>e. last_rejection tr = Some e \<longrightarrow> r = Inl e"
    and "\<forall>e. r = Inl e \<longrightarrow>
           (if tr = [] then load_settings w = Inl e
            else e = (case last_rejection tr of Some e' \<Rightarrow> e' | None \<Rightarrow> TypeError))"
    and "\<forall>m. r = Inr m \<longrightarrow>
           (\<exists>s. load_settings w = Inr s \<and>
                m = (if cdc_phase_ran tr
                     then ready_text (database s) (username s) (cdcUsername s)
                     else skipped_message))"
proof -
  show "\<forall>e. load_settings w = Inl e \<longrightarrow> r = Inl e \<and> tr = []"
    using assms by (auto simp: handler_def)
  have failed: "tr \<noteq> [] \<and>
      e = (case last_rejection tr of Some e' \<Rightarrow> e' | None \<Rightarrow> TypeError)"
    if "load_settings w = Inr s" and "r = Inl e" for s e
  proof -
    from handler_trace [OF that(1) assms] obtain ss where
      "tr = run_events w ss" "run_sessions w s r ss"
      by blast
    with that(2) show ?thesis
      using run_sessions_error [of w s e ss] ready_message_value [OF that(1)] by simp
  qed
  have clean: "last_rejection tr = None" if "load_settings w = Inr s" and "r = Inr m" for s m
  proof -
    from handler_trace [OF that(1) assms] obtain ss where
      "tr = run_events w ss" "run_sessions w s r ss"
      by blast
    with that(2) show ?thesis
      using run_sessions_clean [of w s m ss] by simp
  qed
  show "\<forall>e. last_rejection tr = Some e \<longrightarrow> r = Inl e"
  proof (intro allI impI)
    fix e
    assume l: "last_rejection tr = Some e"
    show "r = Inl e"
    proof (cases "load_settings w")
      case (Inl e')
      with assms l show ?thesis
        by (simp add: handler_def)
    next
      case (Inr s)
      show ?thesis
      proof (cases r)
        case (Inl e')
        with failed [OF Inr Inl] l show ?thesis
          by simp
      next
        case (Inr m)
        with clean [OF \<open>load_settings w = Inr s\<close> Inr] l show ?thesis
          by simp
      qed
    qed
  qed
  show "\<forall>e. r = Inl e \<longrightarrow>
           (if tr = [] then load_settings w = Inl e
            else e = (case last_rejection tr of Some e' \<Rightarrow> e' | None \<Rightarrow> TypeError))"
  proof (cases "load_settings w")
    case (Inl e')
    with assms show ?thesis
      by (auto simp: handler_def)
  next
    case (Inr s)
    with failed show ?thesis
      by auto
  qed
  show "\<forall>m. r = Inr m \<longrightarrow>
           (\<exists>s. load_settings w = Inr s \<and>
                m = (if cdc_phase_ran tr
                     then ready_text (database s) (username s) (cdcUsername s)
                     else skipped_message))"
  proof (cases "load_settings w")
    case (Inl e')
    with assms show ?thesis
      by (auto simp: handler_def)
  next
    case (Inr s)
    have "m = (if cdc_phase_ran tr then ready_text (database s) (username s) (cdcUsername s)
             else skipped_message)" if "r = Inr m" for m
      using handler_success(2-4) [OF Inr, of m tr] assms that by auto
    with Inr show ?thesis
      by simp
  qed
qed

text \<open>
  With credentials in the CDC secret and a service username that is not empty, the message
  of a run that succeeds lists both usernames.
\<close>

lemma message_lists_both_usernames:
  assumes "load_settings w = Inr s" and "handler w = (Inr m, tr)"
    and "cdc_credentials_given w" and "truthy (username s)"
  shows "m = ''Database '' @ quote @ database s @ quote @ '' for username(s) '' @ quote
               @ to_string (username s) @ '' & '' @ to_string (cdcUsername s) @ quote
               @ '' is ready for use!''"
proof -
  from assms(3) obtain v where v: "load_cdc_secret w = Inr v" "cdc_gate_PT_bootstrap_v2 v"
    unfolding cdc_credentials_given_def by (cases "load_cdc_secret w") auto
  with load_settings_fields(2) [OF assms(1)] have "truthy (cdcUsername s)"
    by (simp add: cdcUsername_def cdc_gate_PT_bootstrap_v2_def)
  with handler_success(3) [OF assms(1,2) credentials_usable [OF assms(3)]] assms(4)
  show ?thesis
    by (simp add: ready_text_both)
qed

text \<open>
  Claim C7, evaluated where the handler departs from it. The CDC payload \<^verbatim>\<open>{}\<close> parses to
  an object without credentials, on which the gate of the other variant of the handler is
  closed. Here the CDC phase runs, for the role name \<^verbatim>\<open>undefined\<close>, and the message
  returned lists the service username alone: it is neither a message that lists two
  usernames nor the message that CDC was skipped.
\<close>

theorem message_lists_service_username_alone:
  "load_cdc_secret scenario_empty_object = Inr (JObj []) \<and>
   \<not> cdc_gate_PT_bootstrap_v2 (JObj []) \<and>
   cdc_phase_ran (snd (handler scenario_empty_object)) \<and>
   hd (submitted CdcDbConn (snd (handler scenario_empty_object)))
     = ''GRANT CONNECT ON DATABASE app_database TO undefined'' \<and>
   fst (handler scenario_empty_object)
     = Inr (''Database '' @ quote @ ''app_database'' @ quote @ '' for username(s) '' @ quote
            @ ''myapp_user'' @ quote @ '' is ready for use!'') \<and>
   fst (handler scenario_empty_object) \<noteq> Inr skipped_message \<and>
   \<not> str_includes
       (''Database '' @ quote @ ''app_database'' @ quote @ '' for username(s) '' @ quote
          @ ''myapp_user'' @ quote @ '' is ready for use!'') '' & ''"
proof -
  have "\<not> str_includes
       (''Database '' @ quote @ ''app_database'' @ quote @ '' for username(s) '' @ quote
          @ ''myapp_user'' @ quote @ '' is ready for use!'') '' & ''"
    by (simp add: quote_def)
  moreover have "fst (handler scenario_empty_object) \<noteq> Inr skipped_message"
    by (simp add: scenario_empty_object_result skipped_message_def quote_def)
  moreover have "load_cdc_secret scenario_empty_object = Inr (JObj [])"
    by (simp add: load_cdc_secret_def world_defs)
  moreover have "\<not> cdc_gate_PT_bootstrap_v2 (JObj [])"
    by (simp add: cdc_gate_PT_bootstrap_v2_def own_prop_def)
  ultimately show ?thesis
    using scenario_empty_object_ran scenario_empty_object_grant scenario_empty_object_result
    by simp
qed

subsection \<open>The order of the service statements\<close>

lemma service_statements_first_dropped:
  "service_statements d sc u = tl (service_statements_bootstrap_ts d sc u)"
  by (simp add: service_statements_def service_statements_bootstrap_ts_def)

text \<open>
  Claim C3, evaluated on the handler. In the scenario of the test suite the statements
  submitted on the service connection are these eleven, in this order. The sequence begins
  with the two extension statements, which name the schema, and the schema is created only
  by the fifth statement: the schema creation that the claim puts first is not there. The
  rest of the order is as claimed, with the ownership transfer last.
\<close>

theorem service_phase_starts_with_extensions:
  "submitted ServiceConn (snd (handler scenario))
     = [''CREATE EXTENSION IF NOT EXISTS pg_trgm SCHEMA app_schema CASCADE'',
        ''CREATE EXTENSION IF NOT EXISTS intarray SCHEMA app_schema CASCADE'',
        ''GRANT CONNECT ON DATABASE app_database TO myapp_user'',
        ''GRANT CREATE ON DATABASE app_database TO myapp_user'',
        ''CREATE SCHEMA IF NOT EXISTS app_schema'',
        ''REVOKE CREATE ON SCHEMA public FROM PUBLIC'',
        ''REVOKE ALL ON DATABASE app_database FROM PUBLIC'',
        ''GRANT USAGE, CREATE ON SCHEMA app_schema TO myapp_user'',
        ''ALTER DEFAULT PRIVILEGES IN SCHEMA app_schema GRANT ALL PRIVILEGES ON TABLES TO myapp_user'',
        ''GRANT ALL PRIVILEGES on DATABASE app_database to myapp_user'',
        ''ALTER DATABASE app_database OWNER TO myapp_user'']"
proof -
  have "handler scenario = (Inr skipped_message, snd (handler scenario))"
    using scenario_result by (metis prod.collapse)
  from handler_success(1) [OF scenario_settings this] show ?thesis
    by (simp add: service_statements_def)
qed

subsection \<open>Default names\<close>

lemma replace_first_absent: "\<not> str_includes u pat \<Longrightarrow> replace_first pat rep u = u"
  by (induction u) auto

lemma no_straddle:
  "\<not> str_includes base ''_user'' \<Longrightarrow> take 5 (base @ ''_user'') = ''_user'' \<Longrightarrow> base = []"
proof (cases "5 \<le> length base")
  case True
  assume "\<not> str_includes base ''_user''" "take 5 (base @ ''_user'') = ''_user''"
  with True have "take 5 base = ''_user''"
    by simp
  with \<open>\<not> str_includes base ''_user''\<close> show ?thesis
    by (cases base) (auto simp: eval_nat_numeral)
next
  case False
  assume t: "take 5 (base @ ''_user'') = ''_user''"
  show ?thesis
  proof (cases base)
    case (Cons a b)
    show ?thesis
    proof (cases b)
      case Nil
      with Cons t show ?thesis by simp
    next
      case (Cons a1 b1)
      note c1 = this
      show ?thesis
      proof (cases b1)
        case Nil
        with c1 \<open>base = a # b\<close> t show ?thesis by simp
      next
        case (Cons a2 b2)
        note c2 = this
        show ?thesis
        proof (cases b2)
          case Nil
          with c1 c2 \<open>base = a # b\<close> t show ?thesis by simp
        next
          case (Cons a3 b3)
          note c3 = this
          show ?thesis
          proof (cases b3)
            case Nil
            with c1 c2 c3 \<open>base = a # b\<close> t show ?thesis by simp
          next
            case (Cons a4 b4)
            with c1 c2 c3 \<open>base = a # b\<close> False show ?thesis by simp
          qed
        qed
      qed
    qed
  qed simp
qed

lemma replace_first_trailing:
  "\<not> str_includes base ''_user'' \<Longrightarrow> replace_first ''_user'' [] (base @ ''_user'') = base"
proof (induction base)
  case Nil
  then show ?case by simp
next
  case (Cons c cs)
  from Cons.prems have "take 5 ((c # cs) @ ''_user'') \<noteq> ''_user''"
    using no_straddle [of "c # cs"] by blast
  moreover from Cons.prems have "\<not> str_includes cs ''_user''"
    by simp
  ultimately show ?case
    using Cons.IH by (auto simp: eval_nat_numeral)
qed

text \<open>
  Claim C6, as the handler has it. When neither \<^verbatim>\<open>APP_DATABASE_NAME\<close> nor
  \<^verbatim>\<open>APP_SCHEMA_NAME\<close> is configured and the settings are resolved, the service username
  is a string, the schema is that username as it is, and the database is the username with
  the first occurrence of \<^verbatim>\<open>_user\<close> removed. A username without \<^verbatim>\<open>_user\<close> is the
  database name unchanged, and a trailing \<^verbatim>\<open>_user\<close> is what is removed when the rest of
  the username does not contain \<^verbatim>\<open>_user\<close>; the username \<^verbatim>\<open>myapp_user\<close> gives the
  database \<^verbatim>\<open>myapp\<close> and the schema \<^verbatim>\<open>myapp_user\<close>.
\<close>

theorem default_names_from_service_username:
  assumes "APP_DATABASE_NAME (process_env w) = None"
    and "APP_SCHEMA_NAME (process_env w) = None"
    and "load_settings w = Inr s"
  shows "\<exists>u. get_prop (serviceSecret s) ''username'' = Inr (JStr u) \<and>
             database s = replace_first ''_user'' [] u \<and>
             schema s = JStr u \<and>
             (\<not> str_includes u ''_user'' \<longrightarrow> database s = u) \<and>
             (\<forall>base. u = base @ ''_user'' \<and> \<not> str_includes base ''_user''
                \<longrightarrow> database s = base)"
proof -
  from assms obtain u where
    "get_prop (serviceSecret s) ''username'' = Inr (JStr u)"
    "database s = replace_first ''_user'' [] u" "schema s = JStr u"
    unfolding load_settings_def sbind_def
    by (auto split: sum.splits elim!: js_replace.elims)
  then show ?thesis
    using replace_first_absent replace_first_trailing by auto
qed

theorem default_names_from_service_username_witness:
  "target scenario_defaults = Inr (''myapp'', JStr ''myapp_user'') \<and>
   replace_first ''_user'' [] ''myapp_user'' = ''myapp''"
proof -
  have "APP_DATABASE_NAME (process_env scenario_defaults) = None"
    "APP_SCHEMA_NAME (process_env scenario_defaults) = None"
    by (simp_all add: world_defs)
  from default_names_from_service_username [OF this scenario_defaults_settings]
  show ?thesis
    by (simp add: target_def scenario_defaults_settings)
qed

text \<open>
  An occurrence of \<^verbatim>\<open>_user\<close> that is not at the end is removed all the same: the
  username \<^verbatim>\<open>my_user_app\<close> gives the database \<^verbatim>\<open>my_app\<close>, where stripping a trailing
  suffix would leave it as it is.
\<close>

theorem first_occurrence_counterexample:
  "target scenario_odd = Inr (''my_app'', JStr ''my_user_app'') \<and>
   strip_user_suffix ''my_user_app'' = ''my_user_app''"
  by (simp add: target_def load_settings_def sbind_def parse_secret_def load_cdc_secret_def
        world_defs strip_user_suffix_def)

subsection \<open>Secrets that cannot be read\<close>

text \<open>
  Claim C5. If the lookup of the master secret or of the service secret rejects (the
  secret is missing), or the payload it returns is not parseable JSON, the handler throws
  that very error, and it does so before any connection is opened: the trace of the run is
  empty, so there is no connection to close. The service secret is read after the master
  secret, so its failure is the one that shows when the master secret was read.
\<close>

theorem secret_failure_aborts_before_connecting:
  assumes "secretId = MASTER_USER_SECRET (process_env w) \<or>
           (secretId = APP_USER_SECRET (process_env w) \<and>
            parse_secret w (MASTER_USER_SECRET (process_env w)) = Inr mainSecret)"
    and "secret_send w secretId = Inl e \<or>
         (secret_send w secretId = Inr payload \<and>
          JSON_parse w (case payload of None \<Rightarrow> ''undefined'' | Some text \<Rightarrow> text) = Inl e)"
  shows "handler w = (Inl e, [])"
proof -
  from assms(2) have "parse_secret w secretId = Inl e"
    by (auto simp: parse_secret_def)
  with assms(1) have "load_settings w = Inl e"
    by (auto simp: load_settings_def sbind_def)
  then show ?thesis
    by (simp add: handler_def)
qed

theorem secret_failure_aborts_before_connecting_witness:
  "handler (stub_world (test_env ''master-test'' ''app-missing'' None None) fresh)
     = (Inl (Rejected ''ResourceNotFoundException''), []) \<and>
   handler (stub_world (test_env ''cdc-invalid'' ''app-test'' None None) fresh)
     = (Inl SyntaxError, [])"
proof
  let ?w = "stub_world (test_env ''master-test'' ''app-missing'' None None) fresh"
  have "secret_send ?w ''app-missing'' = Inl (Rejected ''ResourceNotFoundException'')"
    by (simp add: world_defs)
  moreover have "''app-missing'' = APP_USER_SECRET (process_env ?w)"
    by (simp add: world_defs)
  moreover have "parse_secret ?w (MASTER_USER_SECRET (process_env ?w))
      = Inr (JObj [(''username'', JStr ''admin_user''), (''password'', JStr ''admin_password'')])"
    by (simp add: parse_secret_def world_defs)
  ultimately show "handler ?w = (Inl (Rejected ''ResourceNotFoundException''), [])"
    using secret_failure_aborts_before_connecting
      [of "''app-missing''" ?w _ "Rejected ''ResourceNotFoundException''" None]
    by blast
next
  let ?w = "stub_world (test_env ''cdc-invalid'' ''app-test'' None None) fresh"
  have "secret_send ?w ''cdc-invalid'' = Inr (Some ''{invalid-json'')"
    by (simp add: world_defs)
  moreover have "JSON_parse ?w ''{invalid-json'' = Inl SyntaxError"
    by (simp add: world_defs)
  moreover have "''cdc-invalid'' = MASTER_USER_SECRET (process_env ?w)"
    by (simp add: world_defs)
  ultimately show "handler ?w = (Inl SyntaxError, [])"
    using secret_failure_aborts_before_connecting
      [of "''cdc-invalid''" ?w undefined SyntaxError "Some ''{invalid-json''"]
    by simp
qed

end
